theory Spec2Isabelle
  imports Main
begin

section \<open>The RLP type cache (rlp/typecache.go)\<close>

text \<open>
  The file \<^verbatim>\<open>rlp/typecache.go\<close> keeps a process-wide map from
  \<^verbatim>\<open>typekey\<close> (a \<^verbatim>\<open>reflect.Type\<close> with the struct tags of the field it
  was reached through) to a pointer to a \<^verbatim>\<open>typeinfo\<close>, the pair of the
  decoder and the writer generated for that key. This theory embeds its functions
  \<^verbatim>\<open>parseStructTag\<close>, \<^verbatim>\<open>structFields\<close>, \<^verbatim>\<open>genTypeInfo\<close>,
  \<^verbatim>\<open>cachedTypeInfo1\<close> and \<^verbatim>\<open>cachedTypeInfo\<close>, with the map and the
  \<^verbatim>\<open>typeinfo\<close> objects it points to as an explicit state.
\<close>

subsection \<open>Results\<close>

text \<open>
  The three errors \<^verbatim>\<open>parseStructTag\<close> builds with \<^verbatim>\<open>fmt.Errorf\<close>, each with the
  values its format string prints, and the error of a generator
  (\<^verbatim>\<open>makeDecoder\<close>, \<^verbatim>\<open>makeWriter\<close>):
  \<^item> \<open>TagPositionError typ name\<close>:
    \<^verbatim>\<open>rlp: invalid struct tag "tail" for %v.%s (must be on last field)\<close>;
  \<^item> \<open>TagTypeError typ name\<close>:
    \<^verbatim>\<open>rlp: invalid struct tag "tail" for %v.%s (field type is not slice)\<close>;
  \<^item> \<open>TagSyntaxError t typ name\<close>: \<^verbatim>\<open>rlp: unknown struct tag %q on %v.%s\<close>.
\<close>

type_synonym rtype = nat

datatype error =
    TagPositionError rtype string
  | TagTypeError rtype string
  | TagSyntaxError string rtype string
  | GenerationError string

text \<open>
  A Go function that returns \<^verbatim>\<open>(x, error)\<close> ends in one of three ways: it returns
  a value with a nil error, it returns an error, or it panics. A panic is not an error
  value: no \<^verbatim>\<open>if err != nil\<close> sees it.
\<close>

datatype 'a result = Ok 'a | Err error | Panic string

subsection \<open>What package reflect reports about a type\<close>

text \<open>
  A \<^verbatim>\<open>reflect.Type\<close> is used for its identity (it is part of a map key) and for
  \<^verbatim>\<open>Kind\<close>, \<^verbatim>\<open>NumField\<close>, \<^verbatim>\<open>Field\<close> and \<^verbatim>\<open>Elem\<close>. Types may refer to
  themselves, so a type is an identifier and the program's types are a table from
  identifiers to what reflect reports about them.
\<close>

datatype kind =
    Invalid | Bool | Int | Int8 | Int16 | Int32 | Int64
  | Uint | Uint8 | Uint16 | Uint32 | Uint64 | Uintptr
  | Float32 | Float64 | Complex64 | Complex128
  | Array | Chan | Func | Interface | Map | Ptr | Slice | String | Struct
  | UnsafePointer

text \<open>
  A \<^verbatim>\<open>reflect.StructField\<close>: \<open>PkgPath\<close> is empty exactly for an exported field;
  \<open>Tag\<close> holds the key/value pairs of the field's tag string, in their order.
\<close>

record StructField =
  Name :: string
  PkgPath :: string
  Type :: rtype
  Tag :: "(string \<times> string) list"

record typeData =
  Kind :: kind
  Fields :: "StructField list"
  Elem :: rtype

type_synonym reflect = "rtype \<Rightarrow> typeData"

text \<open>\<^verbatim>\<open>StructTag.Get\<close>: the value of the first pair with the key, or the empty string.\<close>

definition Get :: "(string \<times> string) list \<Rightarrow> string \<Rightarrow> string" where
  "Get tag key = (case map_of tag key of None \<Rightarrow> [] | Some v \<Rightarrow> v)"

text \<open>\<^verbatim>\<open>Type.NumField\<close> and \<^verbatim>\<open>Type.Field\<close> panic on a type that is not a struct, and
  \<^verbatim>\<open>Field\<close> on an index out of range.\<close>

definition NumField :: "reflect \<Rightarrow> rtype \<Rightarrow> nat result" where
  "NumField R typ =
     (if Kind (R typ) = Struct then Ok (length (Fields (R typ)))
      else Panic ''reflect: NumField of non-struct type'')"

definition Field :: "reflect \<Rightarrow> rtype \<Rightarrow> nat \<Rightarrow> StructField result" where
  "Field R typ i =
     (if Kind (R typ) \<noteq> Struct then Panic ''reflect: Field of non-struct type''
      else if i < length (Fields (R typ)) then Ok (Fields (R typ) ! i)
      else Panic ''reflect: Field index out of bounds'')"

subsection \<open>Package strings\<close>

text \<open>
  \<^verbatim>\<open>strings.Split(s, sep)\<close> for a separator of one byte: the pieces of \<open>s\<close> between
  the separators, one more than there are separators, so one empty piece for the empty
  string.
\<close>

fun Split :: "string \<Rightarrow> char \<Rightarrow> string list" where
  "Split [] sep = [[]]"
| "Split (c # s) sep =
     (if c = sep then [] # Split s sep
      else (case Split s sep of [] \<Rightarrow> [[c]] | t # ts \<Rightarrow> (c # t) # ts))"

text \<open>
  \<^verbatim>\<open>strings.TrimSpace\<close> removes the leading and the trailing white space, as
  \<^verbatim>\<open>unicode.IsSpace\<close> defines it. A string is its bytes, so the white space runes
  are listed by their UTF-8 encodings: the six of ASCII, U+0085, U+00A0, U+1680,
  U+2000 to U+200A, U+2028, U+2029, U+202F, U+205F and U+3000.
\<close>

definition spaces :: "string list" where
  "spaces =
     [[CHR 0x09], [CHR 0x0A], [CHR 0x0B], [CHR 0x0C], [CHR 0x0D], [CHR 0x20],
      [CHR 0xC2, CHR 0x85], [CHR 0xC2, CHR 0xA0],
      [CHR 0xE1, CHR 0x9A, CHR 0x80],
      [CHR 0xE2, CHR 0x80, CHR 0x80], [CHR 0xE2, CHR 0x80, CHR 0x81],
      [CHR 0xE2, CHR 0x80, CHR 0x82], [CHR 0xE2, CHR 0x80, CHR 0x83],
      [CHR 0xE2, CHR 0x80, CHR 0x84], [CHR 0xE2, CHR 0x80, CHR 0x85],
      [CHR 0xE2, CHR 0x80, CHR 0x86], [CHR 0xE2, CHR 0x80, CHR 0x87],
      [CHR 0xE2, CHR 0x80, CHR 0x88], [CHR 0xE2, CHR 0x80, CHR 0x89],
      [CHR 0xE2, CHR 0x80, CHR 0x8A],
      [CHR 0xE2, CHR 0x80, CHR 0xA8], [CHR 0xE2, CHR 0x80, CHR 0xA9],
      [CHR 0xE2, CHR 0x80, CHR 0xAF], [CHR 0xE2, CHR 0x81, CHR 0x9F],
      [CHR 0xE3, CHR 0x80, CHR 0x80]]"

text \<open>The number of bytes of the white space rune a string starts with, 0 when it starts
  with none.\<close>

definition spaceAtStart :: "string \<Rightarrow> nat" where
  "spaceAtStart s =
     (case filter (\<lambda>r. take (length r) s = r) spaces of [] \<Rightarrow> 0 | r # _ \<Rightarrow> length r)"

text \<open>The same at the end of a string.\<close>

definition spaceAtEnd :: "string \<Rightarrow> nat" where
  "spaceAtEnd s =
     (case filter (\<lambda>r. drop (length s - length r) s = r) spaces of
        [] \<Rightarrow> 0 | r # _ \<Rightarrow> length r)"

lemma spaceAtStart_le: "spaceAtStart s \<le> length s"
proof (cases "filter (\<lambda>r. take (length r) s = r) spaces")
  case Nil
  then show ?thesis by (simp add: spaceAtStart_def)
next
  case (Cons r rs)
  then have "r \<in> set (filter (\<lambda>r. take (length r) s = r) spaces)" by simp
  then have "take (length r) s = r" by simp
  then have "length r \<le> length s"
    by (metis length_take min.cobounded1)
  with Cons show ?thesis by (simp add: spaceAtStart_def)
qed

lemma spaceAtEnd_le: "spaceAtEnd s \<le> length s"
proof (cases "filter (\<lambda>r. drop (length s - length r) s = r) spaces")
  case Nil
  then show ?thesis by (simp add: spaceAtEnd_def)
next
  case (Cons r rs)
  then have "r \<in> set (filter (\<lambda>r. drop (length s - length r) s = r) spaces)" by simp
  then have "drop (length s - length r) s = r" by simp
  then have "length r \<le> length s"
    by (metis diff_le_self length_drop)
  with Cons show ?thesis by (simp add: spaceAtEnd_def)
qed

function TrimLeft :: "string \<Rightarrow> string" where
  "TrimLeft s = (if spaceAtStart s = 0 then s else TrimLeft (drop (spaceAtStart s) s))"
  by pat_completeness auto
termination
proof (relation "measure length")
  fix s :: string
  assume "spaceAtStart s \<noteq> 0"
  moreover have "spaceAtStart s \<le> length s" by (rule spaceAtStart_le)
  ultimately show "(drop (spaceAtStart s) s, s) \<in> measure length" by simp
qed simp

function TrimRight :: "string \<Rightarrow> string" where
  "TrimRight s =
     (if spaceAtEnd s = 0 then s else TrimRight (take (length s - spaceAtEnd s) s))"
  by pat_completeness auto
termination
proof (relation "measure length")
  fix s :: string
  assume "spaceAtEnd s \<noteq> 0"
  moreover have "spaceAtEnd s \<le> length s" by (rule spaceAtEnd_le)
  ultimately show "(take (length s - spaceAtEnd s) s, s) \<in> measure length" by simp
qed simp

definition TrimSpace :: "string \<Rightarrow> string" where
  "TrimSpace s = TrimRight (TrimLeft s)"

subsection \<open>The data of the type cache\<close>

text \<open>The struct \<^verbatim>\<open>tags\<close>; its zero value has the three flags false.\<close>

record tags =
  nilOK :: bool
  tail :: bool
  ignored :: bool

text \<open>The struct \<^verbatim>\<open>typekey\<close>: a \<^verbatim>\<open>reflect.Type\<close> and the \<^verbatim>\<open>tags\<close>.\<close>

type_synonym typekey = "rtype \<times> tags"

text \<open>
  The struct \<^verbatim>\<open>typeinfo\<close>: two function values, \<open>None\<close> for nil. What a decoder
  and a writer are is left open (\<open>'d\<close> and \<open>'w\<close>). A \<^verbatim>\<open>*typeinfo\<close> is an address,
  the index of the object in the heap of the state below.
\<close>

record ('d, 'w) typeinfo =
  decoder :: "'d option"
  writer :: "'w option"

type_synonym addr = nat

text \<open>The struct \<^verbatim>\<open>field\<close>.\<close>

record field =
  index :: nat
  info :: addr

text \<open>
  The state: the map \<^verbatim>\<open>typeCache\<close> (a key that is absent reads as nil), and the
  \<^verbatim>\<open>typeinfo\<close> objects allocated so far, \<^verbatim>\<open>new(typeinfo)\<close> appending one. The
  list \<open>gens\<close> is not a variable of the program: it records, in order, the keys
  \<^verbatim>\<open>genTypeInfo\<close> was called with, and nothing reads it. The mutex
  \<^verbatim>\<open>typeCacheMutex\<close> is left out: with one caller, locking and unlocking change
  nothing that is observed.
\<close>

record ('d, 'w) state =
  typeCache :: "typekey \<rightharpoonup> addr"
  heap :: "('d, 'w) typeinfo list"
  gens :: "typekey list"

text \<open>
  A call may also not return at all. The recursion of \<^verbatim>\<open>cachedTypeInfo1\<close> through
  \<^verbatim>\<open>genTypeInfo\<close> is bounded by a number of nested generations (fuel); \<open>None\<close> is
  a call that needs more.
\<close>

type_synonym ('d, 'w, 'a) call = "(('d, 'w) state \<times> 'a result) option"

type_synonym ('d, 'w) resolver =
  "('d, 'w) state \<Rightarrow> rtype \<Rightarrow> tags \<Rightarrow> ('d, 'w, addr) call"

subsection \<open>parseStructTag\<close>

text \<open>
  The body of the loop over the tokens of the tag, in the order of the \<^verbatim>\<open>switch\<close>.
  The Go function returns the tags read so far beside an error; its one caller drops
  them, and so does \<open>Err\<close>. The comparison \<^verbatim>\<open>fi != typ.NumField()-1\<close> is one of
  Go's signed integers.
\<close>

fun parseTokens ::
  "reflect \<Rightarrow> rtype \<Rightarrow> nat \<Rightarrow> StructField \<Rightarrow> tags \<Rightarrow> string list \<Rightarrow> tags result" where
  "parseTokens R typ fi f ts [] = Ok ts"
| "parseTokens R typ fi f ts (t # rest) =
     (let t = TrimSpace t in
      if t = [] then parseTokens R typ fi f ts rest
      else if t = ''-'' then parseTokens R typ fi f (ts\<lparr>ignored := True\<rparr>) rest
      else if t = ''nil'' then parseTokens R typ fi f (ts\<lparr>nilOK := True\<rparr>) rest
      else if t = ''tail'' then
        (case NumField R typ of
           Ok n \<Rightarrow>
             if int fi \<noteq> int n - 1 then Err (TagPositionError typ (Name f))
             else if Kind (R (Type f)) \<noteq> Slice then Err (TagTypeError typ (Name f))
             else parseTokens R typ fi f (ts\<lparr>tail := True\<rparr>) rest
         | Err e \<Rightarrow> Err e
         | Panic m \<Rightarrow> Panic m)
      else Err (TagSyntaxError t typ (Name f)))"

definition parseStructTag :: "reflect \<Rightarrow> rtype \<Rightarrow> nat \<Rightarrow> tags result" where
  "parseStructTag R typ fi =
     (case Field R typ fi of
        Ok f \<Rightarrow>
          parseTokens R typ fi f \<lparr>nilOK = False, tail = False, ignored = False\<rparr>
            (Split (Get (Tag f) ''rlp'') CHR '','')
      | Err e \<Rightarrow> Err e
      | Panic m \<Rightarrow> Panic m)"

subsection \<open>structFields\<close>

text \<open>
  The loop of \<^verbatim>\<open>structFields\<close> from index \<open>i\<close> on, with the fields collected so
  far (\<open>fs\<close>). The call of \<^verbatim>\<open>cachedTypeInfo1\<close> is the argument \<open>resolve\<close>:
  \<^verbatim>\<open>cachedTypeInfo1\<close> is defined below, by recursion on the fuel, and calls this loop
  with itself at the fuel that is left.
\<close>

function structFieldsFrom ::
  "('d, 'w) resolver \<Rightarrow> reflect \<Rightarrow> rtype \<Rightarrow> nat \<Rightarrow> ('d, 'w) state \<Rightarrow> field list \<Rightarrow>
   ('d, 'w, field list) call" where
  "structFieldsFrom resolve R typ i st fs =
     (case NumField R typ of
        Ok n \<Rightarrow>
          if i < n then
            (case Field R typ i of
               Ok f \<Rightarrow>
                 if PkgPath f = [] then
                   (case parseStructTag R typ i of
                      Ok tags \<Rightarrow>
                        if ignored tags then structFieldsFrom resolve R typ (Suc i) st fs
                        else
                          (case resolve st (Type f) tags of
                             None \<Rightarrow> None
                           | Some (st', Ok p) \<Rightarrow>
                               structFieldsFrom resolve R typ (Suc i) st'
                                 (fs @ [\<lparr>index = i, info = p\<rparr>])
                           | Some (st', Err e) \<Rightarrow> Some (st', Err e)
                           | Some (st', Panic m) \<Rightarrow> Some (st', Panic m))
                    | Err e \<Rightarrow> Some (st, Err e)
                    | Panic m \<Rightarrow> Some (st, Panic m))
                 else structFieldsFrom resolve R typ (Suc i) st fs
             | Err e \<Rightarrow> Some (st, Err e)
             | Panic m \<Rightarrow> Some (st, Panic m))
          else Some (st, Ok fs)
      | Err e \<Rightarrow> Some (st, Err e)
      | Panic m \<Rightarrow> Some (st, Panic m))"
  by pat_completeness auto
termination
  by (relation "measure (\<lambda>(resolve, R, typ, i, st, fs).
        (case NumField R typ of Ok n \<Rightarrow> n - i | _ \<Rightarrow> 0))") auto

definition structFieldsWith ::
  "('d, 'w) resolver \<Rightarrow> reflect \<Rightarrow> rtype \<Rightarrow> ('d, 'w) state \<Rightarrow> ('d, 'w, field list) call" where
  "structFieldsWith resolve R typ st = structFieldsFrom resolve R typ 0 st []"

subsection \<open>The generators makeDecoder and makeWriter\<close>

text \<open>
  Modelled from the spec: \<^verbatim>\<open>makeDecoder\<close> and \<^verbatim>\<open>makeWriter\<close>, which
  \<^verbatim>\<open>genTypeInfo\<close> calls and which are not in \<^verbatim>\<open>typecache.go\<close>. The spec's
  \<^verbatim>\<open>generate(typeDescriptor, tags) -> (decoder, writer) | Error\<close> "produces concrete
  encode/decode closures for one generation step; it may itself call back into
  \<^verbatim>\<open>resolve\<close> for nested field types", and generation drives the Field Enumerator.
  So a generator is a parameter of the model, and what it does for a type and its tags
  is a script: it returns its result (a decoder or writer, an error, or a panic), or it
  calls \<^verbatim>\<open>cachedTypeInfo1\<close> or \<^verbatim>\<open>structFields\<close> and goes on with what the call
  returned. It reaches the cache through these two calls only.
\<close>

datatype 'a gen =
    Return "'a result"
  | CallCachedTypeInfo1 rtype tags "error + addr \<Rightarrow> 'a gen"
  | CallStructFields rtype "error + field list \<Rightarrow> 'a gen"

record ('d, 'w) generator =
  makeDecoder :: "rtype \<Rightarrow> tags \<Rightarrow> 'd gen"
  makeWriter :: "rtype \<Rightarrow> tags \<Rightarrow> 'w gen"

text \<open>Running a script: a panic of a call ends it, anything else is handed to it.\<close>

primrec exec ::
  "'a gen \<Rightarrow> ('d, 'w) resolver \<Rightarrow> reflect \<Rightarrow> ('d, 'w) state \<Rightarrow> ('d, 'w, 'a) call" where
  "exec (Return r) resolve R st = Some (st, r)"
| "exec (CallCachedTypeInfo1 typ tags k) resolve R st =
     (case resolve st typ tags of
        None \<Rightarrow> None
      | Some (st', Ok p) \<Rightarrow> exec (k (Inr p)) resolve R st'
      | Some (st', Err e) \<Rightarrow> exec (k (Inl e)) resolve R st'
      | Some (st', Panic m) \<Rightarrow> Some (st', Panic m))"
| "exec (CallStructFields typ k) resolve R st =
     (case structFieldsWith resolve R typ st of
        None \<Rightarrow> None
      | Some (st', Ok fs) \<Rightarrow> exec (k (Inr fs)) resolve R st'
      | Some (st', Err e) \<Rightarrow> exec (k (Inl e)) resolve R st'
      | Some (st', Panic m) \<Rightarrow> Some (st', Panic m))"

subsection \<open>genTypeInfo and cachedTypeInfo1\<close>

text \<open>
  \<^verbatim>\<open>genTypeInfo\<close>: the decoder first, then the writer. Its \<^verbatim>\<open>new(typeinfo)\<close> is
  only filled, returned and copied from, so the result is the object, not an address.
\<close>

definition genTypeInfoWith ::
  "('d, 'w) resolver \<Rightarrow> ('d, 'w) generator \<Rightarrow> reflect \<Rightarrow> rtype \<Rightarrow> tags \<Rightarrow> ('d, 'w) state \<Rightarrow>
   ('d, 'w, ('d, 'w) typeinfo) call" where
  "genTypeInfoWith resolve G R typ tags st =
     (case exec (makeDecoder G typ tags) resolve R (st\<lparr>gens := gens st @ [(typ, tags)]\<rparr>) of
        None \<Rightarrow> None
      | Some (st1, Ok dec) \<Rightarrow>
          (case exec (makeWriter G typ tags) resolve R st1 of
             None \<Rightarrow> None
           | Some (st2, Ok wr) \<Rightarrow> Some (st2, Ok \<lparr>decoder = Some dec, writer = Some wr\<rparr>)
           | Some (st2, Err e) \<Rightarrow> Some (st2, Err e)
           | Some (st2, Panic m) \<Rightarrow> Some (st2, Panic m))
      | Some (st1, Err e) \<Rightarrow> Some (st1, Err e)
      | Some (st1, Panic m) \<Rightarrow> Some (st1, Panic m))"

text \<open>
  \<^verbatim>\<open>cachedTypeInfo1\<close>. With no fuel left only a key that is present returns. The
  dummy value is a new zero \<^verbatim>\<open>typeinfo\<close>; \<^verbatim>\<open>*typeCache[key] = *info\<close> reads
  the map again and writes through the pointer found there.
\<close>

primrec cachedTypeInfo1 ::
  "nat \<Rightarrow> ('d, 'w) generator \<Rightarrow> reflect \<Rightarrow> ('d, 'w) resolver" where
  "cachedTypeInfo1 0 G R =
     (\<lambda>st typ tags.
        case typeCache st (typ, tags) of
          Some p \<Rightarrow> Some (st, Ok p)
        | None \<Rightarrow> None)"
| "cachedTypeInfo1 (Suc n) G R =
     (\<lambda>st typ tags.
        let key = (typ, tags) in
        case typeCache st key of
          Some p \<Rightarrow> Some (st, Ok p)
        | None \<Rightarrow>
            (case genTypeInfoWith (cachedTypeInfo1 n G R) G R typ tags
                    (st\<lparr>typeCache := (typeCache st)(key \<mapsto> length (heap st)),
                        heap := heap st @ [\<lparr>decoder = None, writer = None\<rparr>]\<rparr>) of
               None \<Rightarrow> None
             | Some (st', Ok ti) \<Rightarrow>
                 (case typeCache st' key of
                    Some p \<Rightarrow> Some (st'\<lparr>heap := (heap st')[p := ti]\<rparr>, Ok p)
                  | None \<Rightarrow> Some (st', Panic ''nil pointer dereference''))
             | Some (st', Err e) \<Rightarrow> Some (st'\<lparr>typeCache := (typeCache st')(key := None)\<rparr>, Err e)
             | Some (st', Panic m) \<Rightarrow> Some (st', Panic m)))"

text \<open>The functions of the source, at a given fuel.\<close>

definition structFields ::
  "nat \<Rightarrow> ('d, 'w) generator \<Rightarrow> reflect \<Rightarrow> rtype \<Rightarrow> ('d, 'w) state \<Rightarrow>
   ('d, 'w, field list) call" where
  "structFields n G R typ st = structFieldsWith (cachedTypeInfo1 n G R) R typ st"

definition genTypeInfo ::
  "nat \<Rightarrow> ('d, 'w) generator \<Rightarrow> reflect \<Rightarrow> rtype \<Rightarrow> tags \<Rightarrow> ('d, 'w) state \<Rightarrow>
   ('d, 'w, ('d, 'w) typeinfo) call" where
  "genTypeInfo n G R typ tags st = genTypeInfoWith (cachedTypeInfo1 n G R) G R typ tags st"

text \<open>\<^verbatim>\<open>cachedTypeInfo\<close>: the lookup under the read lock, then
  \<^verbatim>\<open>cachedTypeInfo1\<close> under the write lock.\<close>

definition cachedTypeInfo ::
  "nat \<Rightarrow> ('d, 'w) generator \<Rightarrow> reflect \<Rightarrow> ('d, 'w) resolver" where
  "cachedTypeInfo n G R st typ tags =
     (case typeCache st (typ, tags) of
        Some p \<Rightarrow> Some (st, Ok p)
      | None \<Rightarrow> cachedTypeInfo1 n G R st typ tags)"

subsection \<open>Notions used in the statements\<close>

text \<open>The tokens of a field's \<^verbatim>\<open>rlp\<close> tag, as the \<^verbatim>\<open>switch\<close> sees them: split at
  the commas, each trimmed.\<close>

definition tokens :: "StructField \<Rightarrow> string list" where
  "tokens f = map TrimSpace (Split (Get (Tag f) ''rlp'') CHR '','')"

text \<open>The state in which \<^verbatim>\<open>cachedTypeInfo1\<close> calls \<^verbatim>\<open>genTypeInfo\<close>: the dummy
  value is in the cache under the key.\<close>

definition placeholder :: "('d, 'w) state \<Rightarrow> typekey \<Rightarrow> ('d, 'w) state" where
  "placeholder st key =
     st\<lparr>typeCache := (typeCache st)(key \<mapsto> length (heap st)),
        heap := heap st @ [\<lparr>decoder = None, writer = None\<rparr>]\<rparr>"

text \<open>
  A later state extends an earlier one: every key that was present is present with the
  same pointer, no object was freed, and the record of generator calls only grew.
\<close>

definition extends :: "('d, 'w) state \<Rightarrow> ('d, 'w) state \<Rightarrow> bool" where
  "extends st st' \<longleftrightarrow>
     (\<forall>k p. typeCache st k = Some p \<longrightarrow> typeCache st' k = Some p) \<and>
     length (heap st) \<le> length (heap st') \<and>
     (\<exists>ks. gens st' = gens st @ ks)"

definition growing :: "('d, 'w) resolver \<Rightarrow> bool" where
  "growing resolve \<longleftrightarrow>
     (\<forall>st typ tags st' r. resolve st typ tags = Some (st', r) \<longrightarrow> extends st st')"

text \<open>
  The Field Enumerator in the spec's words: the fields one after the other in the order
  of their declaration; a field that is not exported is skipped; the tag of an exported
  field is parsed, and an error ends the enumeration; a field whose tag sets
  \<open>ignored\<close> is skipped; the other fields are resolved through the cache under the
  key of the field's type and its parsed tags, an error ends the enumeration, and the
  descriptor is appended.
\<close>

primrec enumerateFields ::
  "('d, 'w) resolver \<Rightarrow> reflect \<Rightarrow> rtype \<Rightarrow> nat list \<Rightarrow> ('d, 'w) state \<Rightarrow> field list \<Rightarrow>
   ('d, 'w, field list) call" where
  "enumerateFields resolve R typ [] st fs = Some (st, Ok fs)"
| "enumerateFields resolve R typ (i # is) st fs =
     (case Field R typ i of
        Ok f \<Rightarrow>
          if PkgPath f \<noteq> [] then enumerateFields resolve R typ is st fs
          else
            (case parseStructTag R typ i of
               Ok tags \<Rightarrow>
                 if ignored tags then enumerateFields resolve R typ is st fs
                 else
                   (case resolve st (Type f) tags of
                      None \<Rightarrow> None
                    | Some (st', Ok p) \<Rightarrow>
                        enumerateFields resolve R typ is st' (fs @ [\<lparr>index = i, info = p\<rparr>])
                    | Some (st', Err e) \<Rightarrow> Some (st', Err e)
                    | Some (st', Panic m) \<Rightarrow> Some (st', Panic m))
             | Err e \<Rightarrow> Some (st, Err e)
             | Panic m \<Rightarrow> Some (st, Panic m))
      | Err e \<Rightarrow> Some (st, Err e)
      | Panic m \<Rightarrow> Some (st, Panic m))"

text \<open>Two properties of resolvers: a call that returns a pointer leaves it in the cache
  under the key; one resolver returns whatever another one returns.\<close>

definition caching :: "('d, 'w) resolver \<Rightarrow> bool" where
  "caching resolve \<longleftrightarrow>
     (\<forall>st typ tags st' p. resolve st typ tags = Some (st', Ok p) \<longrightarrow>
        typeCache st' (typ, tags) = Some p)"

definition refines :: "('d, 'w) resolver \<Rightarrow> ('d, 'w) resolver \<Rightarrow> bool" where
  "refines resolve resolve' \<longleftrightarrow>
     (\<forall>st typ tags x. resolve st typ tags = Some x \<longrightarrow> resolve' st typ tags = Some x)"

text \<open>A field is retained when it is exported and its tag parses without setting
  \<open>ignored\<close>.\<close>

definition retained :: "reflect \<Rightarrow> rtype \<Rightarrow> nat \<Rightarrow> bool" where
  "retained R typ i =
     (case Field R typ i of
        Ok f \<Rightarrow>
          PkgPath f = [] \<and>
          (case parseStructTag R typ i of Ok tags \<Rightarrow> \<not> ignored tags | _ \<Rightarrow> False)
      | _ \<Rightarrow> False)"

text \<open>The pointer of a field descriptor is the cache entry of the field's type under the
  field's parsed tags.\<close>

definition resolved :: "reflect \<Rightarrow> rtype \<Rightarrow> ('d, 'w) state \<Rightarrow> field \<Rightarrow> bool" where
  "resolved R typ st d \<longleftrightarrow>
     (\<exists>f tags. Field R typ (index d) = Ok f \<and> parseStructTag R typ (index d) = Ok tags \<and>
        typeCache st (Type f, tags) = Some (info d))"

text \<open>
  The keys \<^verbatim>\<open>structFields\<close> resolves for a struct type: for each retained field, its
  type with its parsed tags. A script stays within a set of keys when every key it
  resolves, by itself or through \<^verbatim>\<open>structFields\<close>, is in the set, whatever its calls
  return; the set is closed under a generator when the scripts of the generator for the
  keys of the set stay within it. The keys reachable from a Go type are finitely many,
  and they form such a set.
\<close>

definition fieldKeys :: "reflect \<Rightarrow> rtype \<Rightarrow> typekey list" where
  "fieldKeys R typ =
     concat (map
       (\<lambda>i. case Field R typ i of
          Ok f \<Rightarrow>
            if PkgPath f = [] then
              (case parseStructTag R typ i of
                 Ok tags \<Rightarrow> if ignored tags then [] else [(Type f, tags)]
               | _ \<Rightarrow> [])
            else []
        | _ \<Rightarrow> [])
       [0..<length (Fields (R typ))])"

primrec within :: "reflect \<Rightarrow> typekey set \<Rightarrow> 'a gen \<Rightarrow> bool" where
  "within R K (Return r) = True"
| "within R K (CallCachedTypeInfo1 typ tags k) =
     ((typ, tags) \<in> K \<and> (\<forall>r. within R K (k r)))"
| "within R K (CallStructFields typ k) =
     (set (fieldKeys R typ) \<subseteq> K \<and> (\<forall>r. within R K (k r)))"

definition closedUnder :: "('d, 'w) generator \<Rightarrow> reflect \<Rightarrow> typekey set \<Rightarrow> bool" where
  "closedUnder G R K \<longleftrightarrow>
     (\<forall>(typ, tags) \<in> K.
        within R K (makeDecoder G typ tags) \<and> within R K (makeWriter G typ tags))"

text \<open>
  A state is well formed when every pointer in the cache is the address of an object
  that was allocated, and no two keys have the same pointer. The empty cache is, and
  every call keeps it so.
\<close>

definition wellFormed :: "('d, 'w) state \<Rightarrow> bool" where
  "wellFormed st \<longleftrightarrow>
     (\<forall>k p. typeCache st k = Some p \<longrightarrow> p < length (heap st)) \<and>
     (\<forall>k k' p. typeCache st k = Some p \<and> typeCache st k' = Some p \<longrightarrow> k = k')"

definition keeping :: "('d, 'w) resolver \<Rightarrow> bool" where
  "keeping resolve \<longleftrightarrow>
     (\<forall>st typ tags st' r. wellFormed st \<and> resolve st typ tags = Some (st', r) \<longrightarrow>
        wellFormed st')"

text \<open>A resolver returns for the keys of \<open>K\<close> in every state where the keys of \<open>D\<close> are
  present.\<close>

definition returns :: "('d, 'w) resolver \<Rightarrow> typekey set \<Rightarrow> typekey set \<Rightarrow> bool" where
  "returns resolve K D \<longleftrightarrow>
     (\<forall>st t ts. (t, ts) \<in> K \<and> D \<subseteq> dom (typeCache st) \<longrightarrow> resolve st t ts \<noteq> None)"

subsection \<open>An example program\<close>

text \<open>
  Modelled from the spec: a generator that follows the kind of the type, as the spec
  describes generation. For a struct it drives the Field Enumerator; for a pointer or a
  sequence it resolves the element type through the cache, under the zero tags; it
  fails for a kind it does not support (here every kind but \<^verbatim>\<open>uint64\<close>); an error
  of a call is the error of the generation. The decoder or writer it returns stands for
  the closure by what the closure captured.
\<close>

datatype codec = Basic kind | OfFields "field list" | OfElem addr

definition noTags :: tags where
  "noTags = \<lparr>nilOK = False, tail = False, ignored = False\<rparr>"

definition byKind :: "reflect \<Rightarrow> rtype \<Rightarrow> tags \<Rightarrow> codec gen" where
  "byKind R typ ts =
     (if Kind (R typ) = Struct then
        CallStructFields typ
          (\<lambda>r. case r of Inl e \<Rightarrow> Return (Err e) | Inr fs \<Rightarrow> Return (Ok (OfFields fs)))
      else if Kind (R typ) = Ptr \<or> Kind (R typ) = Slice then
        CallCachedTypeInfo1 (Elem (R typ)) noTags
          (\<lambda>r. case r of Inl e \<Rightarrow> Return (Err e) | Inr p \<Rightarrow> Return (Ok (OfElem p)))
      else if Kind (R typ) = Uint64 then Return (Ok (Basic Uint64))
      else Return (Err (GenerationError ''type is not RLP-serializable'')))"

definition kindGenerator :: "reflect \<Rightarrow> (codec, codec) generator" where
  "kindGenerator R = \<lparr>makeDecoder = byKind R, makeWriter = byKind R\<rparr>"

text \<open>
  The types of the example, by their identifiers:
  \<^item> 0 is \<^verbatim>\<open>uint64\<close>, 1 is \<^verbatim>\<open>[]uint64\<close>, 2 is \<^verbatim>\<open>chan uint64\<close>;
  \<^item> 3 is \<^verbatim>\<open>type Node struct { Val uint64; Next *Node `rlp:"nil"` }\<close> and 4 is
    \<^verbatim>\<open>*Node\<close>;
  \<^item> 5 is \<^verbatim>\<open>struct { X uint64 `rlp:"tail"`; Y uint64 }\<close>;
  \<^item> 6 is \<^verbatim>\<open>struct { X uint64; Y uint64 `rlp:"tail"` }\<close>;
  \<^item> 7 is \<^verbatim>\<open>struct { X uint64 `rlp:"x,tail"`; Y uint64 }\<close>;
  \<^item> 8 is \<^verbatim>\<open>struct { X uint64; y uint64; Z uint64 `rlp:"-"`; Rest []uint64 `rlp:"tail"` }\<close>;
  \<^item> 9 is \<^verbatim>\<open>type Tree struct { Children []Tree }\<close> and 10 is \<^verbatim>\<open>[]Tree\<close>;
  \<^item> 11 is \<^verbatim>\<open>struct { X uint64 }\<close> with no tag;
  \<^item> 12 is \<^verbatim>\<open>struct { x uint64 `rlp:"tail"`; Y uint64 }\<close>;
  \<^item> 13 is \<^verbatim>\<open>type List struct { Next *List }\<close> and 14 is \<^verbatim>\<open>*List\<close>.
\<close>

definition exampleTypes :: reflect where
  "exampleTypes t =
     (if t = 1 then \<lparr>Kind = Slice, Fields = [], Elem = 0\<rparr>
      else if t = 2 then \<lparr>Kind = Chan, Fields = [], Elem = 0\<rparr>
      else if t = 3 then
        \<lparr>Kind = Struct,
         Fields = [\<lparr>Name = ''Val'', PkgPath = [], Type = 0, Tag = []\<rparr>,
                   \<lparr>Name = ''Next'', PkgPath = [], Type = 4, Tag = [(''rlp'', ''nil'')]\<rparr>],
         Elem = 0\<rparr>
      else if t = 4 then \<lparr>Kind = Ptr, Fields = [], Elem = 3\<rparr>
      else if t = 5 then
        \<lparr>Kind = Struct,
         Fields = [\<lparr>Name = ''X'', PkgPath = [], Type = 0, Tag = [(''rlp'', ''tail'')]\<rparr>,
                   \<lparr>Name = ''Y'', PkgPath = [], Type = 0, Tag = []\<rparr>],
         Elem = 0\<rparr>
      else if t = 6 then
        \<lparr>Kind = Struct,
         Fields = [\<lparr>Name = ''X'', PkgPath = [], Type = 0, Tag = []\<rparr>,
                   \<lparr>Name = ''Y'', PkgPath = [], Type = 0, Tag = [(''rlp'', ''tail'')]\<rparr>],
         Elem = 0\<rparr>
      else if t = 7 then
        \<lparr>Kind = Struct,
         Fields = [\<lparr>Name = ''X'', PkgPath = [], Type = 0, Tag = [(''rlp'', ''x,tail'')]\<rparr>,
                   \<lparr>Name = ''Y'', PkgPath = [], Type = 0, Tag = []\<rparr>],
         Elem = 0\<rparr>
      else if t = 8 then
        \<lparr>Kind = Struct,
         Fields = [\<lparr>Name = ''X'', PkgPath = [], Type = 0, Tag = []\<rparr>,
                   \<lparr>Name = ''y'', PkgPath = ''main'', Type = 0, Tag = []\<rparr>,
                   \<lparr>Name = ''Z'', PkgPath = [], Type = 0, Tag = [(''rlp'', ''-'')]\<rparr>,
                   \<lparr>Name = ''Rest'', PkgPath = [], Type = 1, Tag = [(''rlp'', ''tail'')]\<rparr>],
         Elem = 0\<rparr>
      else if t = 9 then
        \<lparr>Kind = Struct,
         Fields = [\<lparr>Name = ''Children'', PkgPath = [], Type = 10, Tag = []\<rparr>],
         Elem = 0\<rparr>
      else if t = 10 then \<lparr>Kind = Slice, Fields = [], Elem = 9\<rparr>
      else if t = 11 then
        \<lparr>Kind = Struct,
         Fields = [\<lparr>Name = ''X'', PkgPath = [], Type = 0, Tag = []\<rparr>],
         Elem = 0\<rparr>
      else if t = 12 then
        \<lparr>Kind = Struct,
         Fields = [\<lparr>Name = ''x'', PkgPath = ''main'', Type = 0, Tag = [(''rlp'', ''tail'')]\<rparr>,
                   \<lparr>Name = ''Y'', PkgPath = [], Type = 0, Tag = []\<rparr>],
         Elem = 0\<rparr>
      else if t = 13 then
        \<lparr>Kind = Struct,
         Fields = [\<lparr>Name = ''Next'', PkgPath = [], Type = 14, Tag = []\<rparr>],
         Elem = 0\<rparr>
      else if t = 14 then \<lparr>Kind = Ptr, Fields = [], Elem = 13\<rparr>
      else \<lparr>Kind = Uint64, Fields = [], Elem = 0\<rparr>)"

text \<open>The cache before the first call.\<close>

definition emptyCache :: "(codec, codec) state" where
  "emptyCache = \<lparr>typeCache = Map.empty, heap = [], gens = []\<rparr>"

section \<open>Properties\<close>

declare structFieldsFrom.simps [simp del]
declare TrimLeft.simps [simp del] TrimRight.simps [simp del]

subsection \<open>Reflection and the tag parser\<close>

lemma TrimSpace_Nil: "TrimSpace [] = []"
  by (simp add: TrimSpace_def TrimLeft.simps TrimRight.simps spaceAtStart_def spaceAtEnd_def
      spaces_def)

lemma Field_Ok:
  "Field R t i = Ok f \<longleftrightarrow>
   Kind (R t) = Struct \<and> i < length (Fields (R t)) \<and> f = Fields (R t) ! i"
  by (auto simp: Field_def)

lemma Field_Ok_NumField: "Field R t i = Ok f \<Longrightarrow> NumField R t = Ok (length (Fields (R t)))"
  by (simp add: Field_Ok NumField_def)

lemma parseTokens_known:
  assumes "\<forall>u \<in> set pre. TrimSpace u \<in> {[], ''-'', ''nil''}"
  shows "\<exists>ts'. parseTokens R t fi f ts (pre @ rest) = parseTokens R t fi f ts' rest"
  using assms
proof (induction pre arbitrary: ts)
  case Nil
  show ?case by auto
next
  case (Cons u pre)
  then have "TrimSpace u \<in> {[], ''-'', ''nil''}"
    and "\<forall>u \<in> set pre. TrimSpace u \<in> {[], ''-'', ''nil''}"
    by simp_all
  with Cons.IH show ?case by (auto simp: Let_def)
qed

lemma parseTokens_not_last:
  assumes "NumField R t = Ok n" and "int fi \<noteq> int n - 1"
  shows "parseTokens R t fi f ts toks \<noteq> Err (TagTypeError a b)"
  using assms by (induction toks arbitrary: ts) (auto simp: Let_def)

lemma parseTokens_violation:
  assumes "NumField R t = Ok n" and "''tail'' \<in> TrimSpace ` set toks"
    and "\<not> (int fi = int n - 1 \<and> Kind (R (Type f)) = Slice)"
  shows "\<exists>e. parseTokens R t fi f ts toks = Err e"
  using assms(2)
proof (induction toks arbitrary: ts)
  case Nil
  then show ?case by simp
next
  case (Cons u toks)
  show ?case
  proof (cases "TrimSpace u = ''tail''")
    case True
    with assms(1,3) show ?thesis by (auto simp: Let_def)
  next
    case False
    with Cons.prems have "''tail'' \<in> TrimSpace ` set toks" by auto
    from Cons.IH [OF this] False show ?thesis by (auto simp: Let_def assms(1))
  qed
qed

subsection \<open>The loop of structFields is the enumeration\<close>

lemma structFieldsFrom_enumerate:
  "NumField R t = Ok n \<Longrightarrow>
   structFieldsFrom resolve R t i st fs = enumerateFields resolve R t [i..<n] st fs"
proof (induction resolve R t i st fs rule: structFieldsFrom.induct)
  case (1 resolve R t i st fs)
  show ?case
  proof (cases "i < n")
    case False
    then show ?thesis using "1.prems" by (subst structFieldsFrom.simps) simp
  next
    case True
    then have upt: "[i..<n] = i # [Suc i..<n]" by (simp add: upt_conv_Cons)
    show ?thesis
      apply (subst structFieldsFrom.simps)
      apply (simp add: upt "1.prems" True)
      apply (auto split: result.splits option.splits prod.splits simp: "1.IH" "1.prems" True)
      done
  qed
qed

lemma structFieldsWith_enumerate:
  "structFieldsWith resolve R t st =
     (case NumField R t of
        Ok n \<Rightarrow> enumerateFields resolve R t [0..<n] st []
      | Err e \<Rightarrow> Some (st, Err e)
      | Panic m \<Rightarrow> Some (st, Panic m))"
proof (cases "NumField R t")
  case (Ok n)
  then show ?thesis by (simp add: structFieldsWith_def structFieldsFrom_enumerate)
next
  case (Err e)
  then show ?thesis by (simp add: structFieldsWith_def structFieldsFrom.simps)
next
  case (Panic m)
  then show ?thesis by (simp add: structFieldsWith_def structFieldsFrom.simps)
qed

subsection \<open>Every call extends the state\<close>

lemma extends_refl: "extends st st"
  by (simp add: extends_def)

lemma extends_trans: "extends a b \<Longrightarrow> extends b c \<Longrightarrow> extends a c"
  by (auto simp: extends_def)

lemma growingD: "growing resolve \<Longrightarrow> resolve st t ts = Some (st', r) \<Longrightarrow> extends st st'"
  unfolding growing_def by blast

lemma enumerateFields_extends:
  assumes "growing resolve"
  shows "enumerateFields resolve R t is st fs = Some (st', r) \<Longrightarrow> extends st st'"
proof (induction "is" arbitrary: st fs)
  case Nil
  then show ?case by (simp add: extends_refl)
next
  case (Cons i "is")
  from Cons.prems show ?case
    by (auto split: result.splits if_splits option.splits prod.splits
        intro: extends_refl Cons.IH
        dest: growingD [OF assms] extends_trans)
qed

lemma structFieldsWith_extends:
  assumes "growing resolve"
  shows "structFieldsWith resolve R t st = Some (st', r) \<Longrightarrow> extends st st'"
  by (auto simp: structFieldsWith_enumerate split: result.splits
      intro: extends_refl dest: enumerateFields_extends [OF assms])

lemma exec_extends:
  assumes "growing resolve"
  shows "exec g resolve R st = Some (st', r) \<Longrightarrow> extends st st'"
proof (induction g arbitrary: st)
  case (Return x)
  then show ?case by (simp add: extends_refl)
next
  case (CallCachedTypeInfo1 t ts k)
  from CallCachedTypeInfo1.prems show ?case
    by (auto split: result.splits option.splits prod.splits
        dest: growingD [OF assms] extends_trans CallCachedTypeInfo1.IH [OF rangeI])
next
  case (CallStructFields t k)
  from CallStructFields.prems show ?case
    by (auto split: result.splits option.splits prod.splits
        dest: structFieldsWith_extends [OF assms] extends_trans CallStructFields.IH [OF rangeI])
qed

lemma extends_gens: "extends (st\<lparr>gens := gens st @ ks\<rparr>) st' \<Longrightarrow> extends st st'"
  by (auto simp: extends_def)

lemma genTypeInfoWith_extends:
  assumes "growing resolve"
  shows "genTypeInfoWith resolve G R t ts st = Some (st', r) \<Longrightarrow> extends st st'"
  by (auto simp: genTypeInfoWith_def split: result.splits option.splits prod.splits
      dest: exec_extends [OF assms] extends_trans extends_gens)

lemma genTypeInfoWith_gens:
  assumes "growing resolve" and "genTypeInfoWith resolve G R t ts st = Some (st', r)"
  shows "\<exists>rest. gens st' = gens st @ (t, ts) # rest"
proof -
  let ?st0 = "st\<lparr>gens := gens st @ [(t, ts)]\<rparr>"
  from assms(2) obtain st1 r1 where
    dec: "exec (makeDecoder G t ts) resolve R ?st0 = Some (st1, r1)"
    by (auto simp: genTypeInfoWith_def split: option.splits)
  have e1: "extends ?st0 st1" by (rule exec_extends [OF assms(1) dec])
  have "extends st1 st'"
    using assms(2) dec
    by (auto simp: genTypeInfoWith_def extends_refl
        split: option.splits result.splits dest: exec_extends [OF assms(1)])
  with e1 have "extends ?st0 st'" by (rule extends_trans)
  then show ?thesis by (auto simp: extends_def)
qed

subsection \<open>cachedTypeInfo1: a key that is present, a key that is absent\<close>

lemma cachedTypeInfo1_hit:
  "typeCache st (t, ts) = Some p \<Longrightarrow> cachedTypeInfo1 n G R st t ts = Some (st, Ok p)"
  by (cases n) simp_all

lemma cachedTypeInfo1_0:
  "cachedTypeInfo1 0 G R st t ts =
     (case typeCache st (t, ts) of Some p \<Rightarrow> Some (st, Ok p) | None \<Rightarrow> None)"
  by simp

lemma cachedTypeInfo1_miss:
  "typeCache st (t, ts) = None \<Longrightarrow>
   cachedTypeInfo1 (Suc n) G R st t ts =
     (case genTypeInfo n G R t ts (placeholder st (t, ts)) of
        None \<Rightarrow> None
      | Some (st', Ok ti) \<Rightarrow>
          (case typeCache st' (t, ts) of
             Some p \<Rightarrow> Some (st'\<lparr>heap := (heap st')[p := ti]\<rparr>, Ok p)
           | None \<Rightarrow> Some (st', Panic ''nil pointer dereference''))
      | Some (st', Err e) \<Rightarrow> Some (st'\<lparr>typeCache := (typeCache st')((t, ts) := None)\<rparr>, Err e)
      | Some (st', Panic m) \<Rightarrow> Some (st', Panic m))"
  by (simp add: Let_def genTypeInfo_def placeholder_def)

lemmas cachedTypeInfo1_eval = cachedTypeInfo1.simps

declare cachedTypeInfo1.simps [simp del]

lemma cachedTypeInfo_eq: "cachedTypeInfo n G R st t ts = cachedTypeInfo1 n G R st t ts"
  by (auto simp: cachedTypeInfo_def cachedTypeInfo1_hit split: option.splits)

lemma extends_placeholder: "typeCache st key = None \<Longrightarrow> extends st (placeholder st key)"
  by (auto simp: extends_def placeholder_def)

lemma cachedTypeInfo1_growing: "growing (cachedTypeInfo1 n G R)"
proof (induction n)
  case 0
  show ?case by (auto simp: growing_def extends_refl cachedTypeInfo1_0 split: option.splits)
next
  case (Suc n)
  show ?case
    unfolding growing_def
  proof (intro allI impI)
    fix st t ts st' r
    assume run: "cachedTypeInfo1 (Suc n) G R st t ts = Some (st', r)"
    show "extends st st'"
    proof (cases "typeCache st (t, ts)")
      case (Some p)
      with run show ?thesis by (simp add: extends_refl cachedTypeInfo1_hit)
    next
      case None
      from run obtain st2 r2 where
        gen: "genTypeInfo n G R t ts (placeholder st (t, ts)) = Some (st2, r2)"
        by (auto simp: cachedTypeInfo1_miss [OF None] split: option.splits)
      have "extends (placeholder st (t, ts)) st2"
        using gen unfolding genTypeInfo_def by (rule genTypeInfoWith_extends [OF Suc])
      with extends_placeholder [OF None] have e: "extends st st2"
        by (rule extends_trans)
      show ?thesis
        using run gen None e
        by (auto simp: cachedTypeInfo1_miss [OF None] extends_def
            split: result.splits option.splits)
    qed
  qed
qed

lemma cachedTypeInfo1_caching:
  assumes "cachedTypeInfo1 n G R st t ts = Some (st', Ok p)"
  shows "typeCache st' (t, ts) = Some p"
proof (cases "typeCache st (t, ts)")
  case (Some q)
  with assms show ?thesis by (simp add: cachedTypeInfo1_hit)
next
  case None
  with assms obtain m where "n = Suc m"
    by (cases n) (auto simp: cachedTypeInfo1_0)
  with assms None show ?thesis
    by (auto simp: cachedTypeInfo1_miss split: option.splits result.splits)
qed

lemma cachedTypeInfo1_miss_gens:
  assumes "typeCache st (t, ts) = None" and "cachedTypeInfo1 n G R st t ts = Some (st', r)"
  shows "\<exists>rest. gens st' = gens st @ (t, ts) # rest"
proof -
  from assms obtain m where n: "n = Suc m"
    by (cases n) (auto simp: cachedTypeInfo1_0)
  from assms obtain st2 r2 where
    gen: "genTypeInfoWith (cachedTypeInfo1 m G R) G R t ts (placeholder st (t, ts)) =
            Some (st2, r2)"
    and g: "gens st' = gens st2"
    by (auto simp: n cachedTypeInfo1_miss genTypeInfo_def split: option.splits result.splits)
  from genTypeInfoWith_gens [OF cachedTypeInfo1_growing gen] g show ?thesis
    by (simp add: placeholder_def)
qed

lemma cachedTypeInfo1_Err_absent:
  assumes "cachedTypeInfo1 n G R st t ts = Some (st', Err e)"
  shows "typeCache st' (t, ts) = None"
proof (cases "typeCache st (t, ts)")
  case (Some q)
  with assms show ?thesis by (simp add: cachedTypeInfo1_hit)
next
  case None
  with assms obtain m where "n = Suc m"
    by (cases n) (auto simp: cachedTypeInfo1_0)
  with assms None show ?thesis
    by (auto simp: cachedTypeInfo1_miss split: option.splits result.splits)
qed

lemma cachedTypeInfo1_Err_miss:
  assumes "cachedTypeInfo1 n G R st t ts = Some (st', Err e)"
  shows "typeCache st (t, ts) = None"
  using assms by (cases "typeCache st (t, ts)") (auto simp: cachedTypeInfo1_hit)

subsection \<open>Every call keeps the state well formed\<close>

lemma keepingD:
  "keeping resolve \<Longrightarrow> wellFormed st \<Longrightarrow> resolve st t ts = Some (st', r) \<Longrightarrow> wellFormed st'"
  unfolding keeping_def by blast

lemma enumerateFields_wellFormed:
  assumes "keeping resolve"
  shows "enumerateFields resolve R t is st fs = Some (st', r) \<Longrightarrow> wellFormed st \<Longrightarrow>
         wellFormed st'"
proof (induction "is" arbitrary: st fs)
  case Nil
  then show ?case by simp
next
  case (Cons i "is")
  from Cons.prems show ?case
    by (auto split: result.splits if_splits option.splits prod.splits
        intro: Cons.IH dest: keepingD [OF assms])
qed

lemma structFieldsWith_wellFormed:
  assumes "keeping resolve"
  shows "structFieldsWith resolve R t st = Some (st', r) \<Longrightarrow> wellFormed st \<Longrightarrow>
         wellFormed st'"
  by (auto simp: structFieldsWith_enumerate split: result.splits
      dest: enumerateFields_wellFormed [OF assms])

lemma exec_wellFormed:
  assumes "keeping resolve"
  shows "exec g resolve R st = Some (st', r) \<Longrightarrow> wellFormed st \<Longrightarrow> wellFormed st'"
proof (induction g arbitrary: st)
  case (Return x)
  then show ?case by simp
next
  case (CallCachedTypeInfo1 t ts k)
  from CallCachedTypeInfo1.prems show ?case
    by (auto split: result.splits option.splits prod.splits
        dest: keepingD [OF assms] CallCachedTypeInfo1.IH [OF rangeI])
next
  case (CallStructFields t k)
  from CallStructFields.prems show ?case
    by (auto split: result.splits option.splits prod.splits
        dest: structFieldsWith_wellFormed [OF assms] CallStructFields.IH [OF rangeI])
qed

lemma wellFormed_gens: "wellFormed (st\<lparr>gens := g\<rparr>) = wellFormed st"
  by (simp add: wellFormed_def)

lemma genTypeInfoWith_wellFormed:
  assumes "keeping resolve"
  shows "genTypeInfoWith resolve G R t ts st = Some (st', r) \<Longrightarrow> wellFormed st \<Longrightarrow>
         wellFormed st'"
  by (auto simp: genTypeInfoWith_def wellFormed_gens
      split: result.splits option.splits prod.splits
      dest: exec_wellFormed [OF assms])

lemma wellFormed_placeholder:
  "wellFormed st \<Longrightarrow> typeCache st key = None \<Longrightarrow> wellFormed (placeholder st key)"
  unfolding wellFormed_def placeholder_def
  by (auto simp: less_Suc_eq split: if_splits) 

lemma wellFormed_fill: "wellFormed st \<Longrightarrow> wellFormed (st\<lparr>heap := (heap st)[p := ti]\<rparr>)"
  by (simp add: wellFormed_def)

lemma wellFormed_delete:
  "wellFormed st \<Longrightarrow> wellFormed (st\<lparr>typeCache := (typeCache st)(key := None)\<rparr>)"
  unfolding wellFormed_def by (auto split: if_splits)

lemma cachedTypeInfo1_keeping: "keeping (cachedTypeInfo1 n G R)"
proof (induction n)
  case 0
  show ?case by (auto simp: keeping_def cachedTypeInfo1_0 split: option.splits)
next
  case (Suc n)
  show ?case
    unfolding keeping_def
  proof (intro allI impI)
    fix st t ts st' r
    assume h: "wellFormed st \<and> cachedTypeInfo1 (Suc n) G R st t ts = Some (st', r)"
    show "wellFormed st'"
    proof (cases "typeCache st (t, ts)")
      case (Some p)
      with h show ?thesis by (auto simp: cachedTypeInfo1_hit)
    next
      case None
      from h obtain st2 r2 where
        gen: "genTypeInfo n G R t ts (placeholder st (t, ts)) = Some (st2, r2)"
        by (auto simp: cachedTypeInfo1_miss [OF None] split: option.splits)
      from h None have "wellFormed (placeholder st (t, ts))"
        by (simp add: wellFormed_placeholder)
      with gen have "wellFormed st2"
        unfolding genTypeInfo_def by (rule genTypeInfoWith_wellFormed [OF Suc])
      with h gen show ?thesis
        by (auto simp: cachedTypeInfo1_miss [OF None] wellFormed_fill wellFormed_delete
            split: result.splits option.splits)
    qed
  qed
qed

lemma structFields_wellFormed:
  "structFields n G R t st = Some (st', r) \<Longrightarrow> wellFormed st \<Longrightarrow> wellFormed st'"
  unfolding structFields_def by (rule structFieldsWith_wellFormed [OF cachedTypeInfo1_keeping])

lemma wellFormed_empty: "wellFormed \<lparr>typeCache = Map.empty, heap = [], gens = []\<rparr>"
  by (simp add: wellFormed_def)

subsection \<open>What the enumeration returns\<close>

lemma parseTokens_flags:
  "parseTokens R t fi f ts toks = Ok ts' \<Longrightarrow>
   nilOK ts' = (nilOK ts \<or> ''nil'' \<in> TrimSpace ` set toks) \<and>
   tail ts' = (tail ts \<or> ''tail'' \<in> TrimSpace ` set toks) \<and>
   ignored ts' = (ignored ts \<or> ''-'' \<in> TrimSpace ` set toks)"
proof (induction toks arbitrary: ts)
  case Nil
  then show ?case by simp
next
  case (Cons u toks)
  from Cons.prems show ?case
    by (auto simp: Let_def split: if_splits result.splits dest!: Cons.IH)
qed

lemma parseStructTag_violation:
  assumes "Field R t i = Ok f" and "''tail'' \<in> set (tokens f)"
    and "\<not> (int i = int (length (Fields (R t))) - 1 \<and> Kind (R (Type f)) = Slice)"
  shows "\<exists>e. parseStructTag R t i = Err e"
proof -
  from assms(2) have "''tail'' \<in> TrimSpace ` set (Split (Get (Tag f) ''rlp'') CHR '','')"
    by (simp add: tokens_def)
  from parseTokens_violation [OF Field_Ok_NumField [OF assms(1)] this assms(3)]
  show ?thesis by (simp add: parseStructTag_def assms(1))
qed

lemma enumerateFields_parsed:
  assumes "enumerateFields resolve R t is st fs = Some (st', Ok fs')"
    and "i \<in> set is" and "Field R t i = Ok f" and "PkgPath f = []"
  shows "\<exists>ts. parseStructTag R t i = Ok ts"
  using assms(1,2)
proof (induction "is" arbitrary: st fs)
  case Nil
  then show ?case by simp
next
  case (Cons j "is")
  show ?case
  proof (cases "j = i")
    case True
    with Cons.prems(1) assms(3,4) show ?thesis
      by (cases "parseStructTag R t i") simp_all
  next
    case False
    with Cons.prems(2) have "i \<in> set is" by simp
    with Cons.prems(1) Cons.IH show ?thesis
      by (auto split: result.splits if_splits option.splits prod.splits)
  qed
qed

lemma enumerateFields_indices:
  "enumerateFields resolve R t is st fs = Some (st', Ok fs') \<Longrightarrow>
   map index fs' = map index fs @ filter (retained R t) is"
proof (induction "is" arbitrary: st fs)
  case Nil
  then show ?case by simp
next
  case (Cons i "is")
  from Cons.prems show ?case
    by (auto simp: retained_def split: result.splits if_splits option.splits prod.splits
        dest!: Cons.IH)
qed

lemma resolved_extends: "resolved R t st d \<Longrightarrow> extends st st' \<Longrightarrow> resolved R t st' d"
  unfolding resolved_def extends_def by blast

lemma enumerateFields_resolved:
  assumes "growing resolve" and "caching resolve"
  shows "enumerateFields resolve R t is st fs = Some (st', Ok fs') \<Longrightarrow>
         \<forall>d \<in> set fs. resolved R t st d \<Longrightarrow> \<forall>d \<in> set fs'. resolved R t st' d"
proof (induction "is" arbitrary: st fs)
  case Nil
  then show ?case by simp
next
  case (Cons i "is")
  show ?case
  proof (cases "retained R t i")
    case False
    with Cons.prems Cons.IH show ?thesis
      by (auto simp: retained_def split: result.splits if_splits option.splits prod.splits)
  next
    case True
    then obtain f ts where f: "Field R t i = Ok f" "PkgPath f = []"
      and ts: "parseStructTag R t i = Ok ts" "\<not> ignored ts"
      by (auto simp: retained_def split: result.splits)
    with Cons.prems(1) obtain st1 p where
      res: "resolve st (Type f) ts = Some (st1, Ok p)"
      and rest: "enumerateFields resolve R t is st1 (fs @ [\<lparr>index = i, info = p\<rparr>]) = Some (st', Ok fs')"
      by (auto split: result.splits option.splits prod.splits)
    from assms(2) res have "typeCache st1 (Type f, ts) = Some p"
      unfolding caching_def by blast
    with f ts have new: "resolved R t st1 \<lparr>index = i, info = p\<rparr>"
      by (auto simp: resolved_def)
    from growingD [OF assms(1) res] Cons.prems(2)
    have "\<forall>d \<in> set fs. resolved R t st1 d"
      by (blast intro: resolved_extends)
    with new have "\<forall>d \<in> set (fs @ [\<lparr>index = i, info = p\<rparr>]). resolved R t st1 d" by simp
    from Cons.IH [OF rest this] show ?thesis .
  qed
qed

lemma enumerateFields_error:
  "enumerateFields resolve R t is st fs = Some (st', Err e) \<Longrightarrow>
   \<forall>i \<in> set is. \<exists>f. Field R t i = Ok f \<Longrightarrow>
   \<exists>i \<in> set is. \<exists>f. Field R t i = Ok f \<and> PkgPath f = [] \<and>
     (parseStructTag R t i = Err e \<or>
      (\<exists>ts s s'. parseStructTag R t i = Ok ts \<and> \<not> ignored ts \<and>
         resolve s (Type f) ts = Some (s', Err e)))"
proof (induction "is" arbitrary: st fs)
  case Nil
  then show ?case by simp
next
  case (Cons i "is")
  from Cons.prems(2) obtain f where f: "Field R t i = Ok f" by auto
  from Cons.prems(2) have all: "\<forall>i \<in> set is. \<exists>f. Field R t i = Ok f" by simp
  show ?case
  proof (cases "\<exists>st1 fs1. enumerateFields resolve R t is st1 fs1 = Some (st', Err e)")
    case True
    then obtain st1 fs1 where "enumerateFields resolve R t is st1 fs1 = Some (st', Err e)"
      by blast
    from Cons.IH [OF this all] show ?thesis by auto
  next
    case False
    with Cons.prems(1) f show ?thesis
      by (auto split: result.splits if_splits option.splits prod.splits)
  qed
qed

lemma cachedTypeInfo1_is_caching: "caching (cachedTypeInfo1 n G R)"
  unfolding caching_def using cachedTypeInfo1_caching by blast

lemma structFields_enumerate:
  "Kind (R t) = Struct \<Longrightarrow>
   structFields n G R t st =
     enumerateFields (cachedTypeInfo1 n G R) R t [0..<length (Fields (R t))] st []"
  by (simp add: structFields_def structFieldsWith_enumerate NumField_def)

lemma structFields_extends:
  "structFields n G R t st = Some (st', r) \<Longrightarrow> extends st st'"
  unfolding structFields_def by (rule structFieldsWith_extends [OF cachedTypeInfo1_growing])

lemma structFields_parsed:
  assumes "structFields n G R t st = Some (st', Ok fs)"
    and "Field R t i = Ok f" and "PkgPath f = []"
  shows "\<exists>ts. parseStructTag R t i = Ok ts"
proof -
  from assms(2) have kind: "Kind (R t) = Struct" and i: "i \<in> set [0..<length (Fields (R t))]"
    by (simp_all add: Field_Ok)
  from assms(1) have "enumerateFields (cachedTypeInfo1 n G R) R t
      [0..<length (Fields (R t))] st [] = Some (st', Ok fs)"
    using structFields_enumerate [of R t n G st] kind by simp
  from enumerateFields_parsed [OF this i assms(2,3)] show ?thesis .
qed

lemma genTypeInfoWith_Ok:
  "genTypeInfoWith resolve G R t ts st = Some (st', Ok ti) \<Longrightarrow>
   \<exists>dec wr. ti = \<lparr>decoder = Some dec, writer = Some wr\<rparr>"
  by (auto simp: genTypeInfoWith_def split: option.splits result.splits)

lemma genTypeInfo_struct_not_Ok:
  assumes "makeDecoder G t ts = CallStructFields t k" and "\<forall>e. k (Inl e) = Return (Err e)"
    and "\<forall>st st' fs. structFields n G R t st \<noteq> Some (st', Ok fs)"
  shows "genTypeInfo n G R t ts st \<noteq> Some (st', Ok ti)"
proof
  assume run: "genTypeInfo n G R t ts st = Some (st', Ok ti)"
  let ?st0 = "st\<lparr>gens := gens st @ [(t, ts)]\<rparr>"
  from run obtain st1 dec where
    ex: "exec (CallStructFields t k) (cachedTypeInfo1 n G R) R ?st0 = Some (st1, Ok dec)"
    by (auto simp: genTypeInfo_def genTypeInfoWith_def assms(1)
        split: option.splits result.splits)
  show False
  proof (cases "structFieldsWith (cachedTypeInfo1 n G R) R t ?st0")
    case None
    with ex show False by simp
  next
    case (Some a)
    obtain s1 r1 where a: "a = (s1, r1)" by (cases a)
    show False
    proof (cases r1)
      case (Ok fs)
      with Some a assms(3) show False by (simp add: structFields_def)
    next
      case (Err e)
      with Some a ex assms(2) show False by simp
    next
      case (Panic m)
      with Some a ex show False by simp
    qed
  qed
qed

lemma genTypeInfo_struct_Err:
  assumes "makeDecoder G t ts = CallStructFields t k" and "k (Inl e) = Return (Err e)"
    and "structFields n G R t (st\<lparr>gens := gens st @ [(t, ts)]\<rparr>) = Some (st', Err e)"
  shows "genTypeInfo n G R t ts st = Some (st', Err e)"
  using assms by (simp add: genTypeInfo_def genTypeInfoWith_def structFields_def)

lemma tail_violation_structFields:
  assumes "Field R t i = Ok f" and "PkgPath f = []" and "''tail'' \<in> set (tokens f)"
    and "\<not> (int i = int (length (Fields (R t))) - 1 \<and> Kind (R (Type f)) = Slice)"
  shows "structFields n G R t st \<noteq> Some (st', Ok fs)"
  using structFields_parsed [OF _ assms(1,2), of n G st st' fs]
    parseStructTag_violation [OF assms(1,3,4)]
  by auto

lemma tail_violation_resolve:
  assumes "Field R t i = Ok f" and "PkgPath f = []" and "''tail'' \<in> set (tokens f)"
    and "\<not> (int i = int (length (Fields (R t))) - 1 \<and> Kind (R (Type f)) = Slice)"
    and "makeDecoder G t ts = CallStructFields t k" and "\<forall>e. k (Inl e) = Return (Err e)"
    and "typeCache st (t, ts) = None"
  shows "cachedTypeInfo n G R st t ts \<noteq> Some (st', Ok p)"
proof (cases n)
  case 0
  with assms(7) show ?thesis by (simp add: cachedTypeInfo_eq cachedTypeInfo1_0)
next
  case (Suc m)
  have "\<forall>s s' fs. structFields m G R t s \<noteq> Some (s', Ok fs)"
    using tail_violation_structFields [OF assms(1-4)] by blast
  from genTypeInfo_struct_not_Ok [OF assms(5,6) this]
  show ?thesis
    by (auto simp: Suc cachedTypeInfo_eq cachedTypeInfo1_miss [OF assms(7)]
        split: option.splits result.splits)
qed

subsection \<open>Enough fuel\<close>

lemma extends_dom: "extends st st' \<Longrightarrow> dom (typeCache st) \<subseteq> dom (typeCache st')"
  by (auto simp: extends_def)

lemma fieldKeys_mem:
  assumes "Field R t i = Ok f" "PkgPath f = []" "parseStructTag R t i = Ok ts" "\<not> ignored ts"
  shows "(Type f, ts) \<in> set (fieldKeys R t)"
proof -
  from assms(1) have "i \<in> set [0..<length (Fields (R t))]" by (simp add: Field_Ok)
  moreover have "(Type f, ts) \<in> set (case Field R t i of
          Ok f \<Rightarrow>
            if PkgPath f = [] then
              (case parseStructTag R t i of
                 Ok tags \<Rightarrow> if ignored tags then [] else [(Type f, tags)]
               | _ \<Rightarrow> [])
            else []
        | _ \<Rightarrow> [])"
    using assms by simp
  ultimately show ?thesis unfolding fieldKeys_def set_concat set_map by blast
qed

lemma enumerateFields_returns:
  assumes "growing resolve" and "returns resolve K D" and "set (fieldKeys R t) \<subseteq> K"
  shows "D \<subseteq> dom (typeCache st) \<Longrightarrow> enumerateFields resolve R t is st fs \<noteq> None"
proof (induction "is" arbitrary: st fs)
  case Nil
  show ?case by simp
next
  case (Cons i "is")
  show ?case
  proof (cases "Field R t i")
    case (Ok f)
    show ?thesis
    proof (cases "PkgPath f = []")
      case False
      with Ok Cons show ?thesis by simp
    next
      case True
      show ?thesis
      proof (cases "parseStructTag R t i")
        case (Ok ts)
        show ?thesis
        proof (cases "ignored ts")
          case True
          with Ok \<open>Field R t i = Ok f\<close> \<open>PkgPath f = []\<close> Cons show ?thesis by simp
        next
          case False
          from fieldKeys_mem [OF \<open>Field R t i = Ok f\<close> \<open>PkgPath f = []\<close> Ok False] assms(3)
          have "(Type f, ts) \<in> K" by blast
          with assms(2) Cons.prems obtain st1 r1 where
            res: "resolve st (Type f) ts = Some (st1, r1)"
            unfolding returns_def by fastforce
          from growingD [OF assms(1) res] Cons.prems have "D \<subseteq> dom (typeCache st1)"
            using extends_dom by blast
          from Cons.IH [OF this] res Ok False \<open>Field R t i = Ok f\<close> \<open>PkgPath f = []\<close>
          show ?thesis by (cases r1) simp_all
        qed
      qed (use \<open>Field R t i = Ok f\<close> True in simp_all)
    qed
  qed simp_all
qed

lemma structFieldsWith_returns:
  assumes "growing resolve" and "returns resolve K D" and "set (fieldKeys R t) \<subseteq> K"
    and "D \<subseteq> dom (typeCache st)"
  shows "structFieldsWith resolve R t st \<noteq> None"
  using enumerateFields_returns [OF assms]
  by (simp add: structFieldsWith_enumerate split: result.splits)

lemma exec_returns:
  assumes "growing resolve" and "returns resolve K D"
  shows "within R K g \<Longrightarrow> D \<subseteq> dom (typeCache st) \<Longrightarrow> exec g resolve R st \<noteq> None"
proof (induction g arbitrary: st)
  case (Return x)
  show ?case by simp
next
  case (CallCachedTypeInfo1 t ts k)
  from CallCachedTypeInfo1.prems assms(2) obtain st1 r1 where
    res: "resolve st t ts = Some (st1, r1)"
    unfolding returns_def by fastforce
  from growingD [OF assms(1) res] CallCachedTypeInfo1.prems have d: "D \<subseteq> dom (typeCache st1)"
    using extends_dom by blast
  from CallCachedTypeInfo1.prems have w: "within R K (k x)" for x by simp
  from CallCachedTypeInfo1.IH [OF rangeI w d] res show ?case
    by (cases r1) simp_all
next
  case (CallStructFields t k)
  from CallStructFields.prems have "set (fieldKeys R t) \<subseteq> K" by simp
  from structFieldsWith_returns [OF assms this] CallStructFields.prems obtain st1 r1 where
    res: "structFieldsWith resolve R t st = Some (st1, r1)"
    by fastforce
  from structFieldsWith_extends [OF assms(1) res] CallStructFields.prems
  have d: "D \<subseteq> dom (typeCache st1)"
    using extends_dom by blast
  from CallStructFields.prems have w: "within R K (k x)" for x by simp
  from CallStructFields.IH [OF rangeI w d] res show ?case
    by (cases r1) simp_all
qed

lemma genTypeInfoWith_returns:
  assumes "growing resolve" and "returns resolve K D"
    and "within R K (makeDecoder G t ts)" and "within R K (makeWriter G t ts)"
    and "D \<subseteq> dom (typeCache st)"
  shows "genTypeInfoWith resolve G R t ts st \<noteq> None"
proof -
  let ?st0 = "st\<lparr>gens := gens st @ [(t, ts)]\<rparr>"
  from assms(5) have "D \<subseteq> dom (typeCache ?st0)" by simp
  from exec_returns [OF assms(1,2,3) this] obtain st1 r1 where
    dec: "exec (makeDecoder G t ts) resolve R ?st0 = Some (st1, r1)" by fastforce
  from exec_extends [OF assms(1) dec] assms(5) have "D \<subseteq> dom (typeCache st1)"
    using extends_dom by fastforce
  from exec_returns [OF assms(1,2,4) this] obtain st2 r2 where
    wr: "exec (makeWriter G t ts) resolve R st1 = Some (st2, r2)" by fastforce
  show ?thesis
    by (cases r1; cases r2) (simp_all add: genTypeInfoWith_def dec wr)
qed

lemma cachedTypeInfo1_returns:
  fixes st :: "('d, 'w) state"
  assumes "finite K" and "closedUnder G R K"
  shows "(t, ts) \<in> K \<Longrightarrow> card (K - dom (typeCache st)) \<le> n \<Longrightarrow>
         cachedTypeInfo1 n G R st t ts \<noteq> None"
proof (induction n arbitrary: st t ts)
  case 0
  then have "K - dom (typeCache st) = {}" using assms(1) by simp
  with "0.prems"(1) obtain p where "typeCache st (t, ts) = Some p" by auto
  then show ?case by (simp add: cachedTypeInfo1_hit)
next
  case (Suc n)
  show ?case
  proof (cases "typeCache st (t, ts)")
    case (Some p)
    then show ?thesis by (simp add: cachedTypeInfo1_hit)
  next
    case None
    let ?st1 = "placeholder st (t, ts)"
    let ?D = "dom (typeCache ?st1)"
    have D: "?D = insert (t, ts) (dom (typeCache st))" by (simp add: placeholder_def)
    have "K - ?D = (K - dom (typeCache st)) - {(t, ts)}" unfolding D by blast
    moreover have "(t, ts) \<in> K - dom (typeCache st)" using Suc.prems(1) None by auto
    ultimately have c: "card (K - ?D) \<le> n"
      using Suc.prems(2) assms(1) by (simp add: card_Diff_singleton)
    have ret: "returns (cachedTypeInfo1 n G R) K ?D"
      unfolding returns_def
    proof (intro allI impI)
      fix s :: "('d, 'w) state" and t' ts'
      assume h: "(t', ts') \<in> K \<and> ?D \<subseteq> dom (typeCache s)"
      then have "K - dom (typeCache s) \<subseteq> K - ?D" by blast
      then have "card (K - dom (typeCache s)) \<le> card (K - ?D)"
        using assms(1) by (intro card_mono) auto
      with c have "card (K - dom (typeCache s)) \<le> n" by simp
      with h show "cachedTypeInfo1 n G R s t' ts' \<noteq> None" by (intro Suc.IH) auto
    qed
    from assms(2) Suc.prems(1) have w: "within R K (makeDecoder G t ts)" "within R K (makeWriter G t ts)"
      unfolding closedUnder_def by auto
    from genTypeInfoWith_returns [OF cachedTypeInfo1_growing ret w, of ?st1]
    obtain st2 r2 where "genTypeInfo n G R t ts ?st1 = Some (st2, r2)"
      unfolding genTypeInfo_def by fastforce
    then show ?thesis
      by (cases r2) (simp_all add: cachedTypeInfo1_miss [OF None] split: option.splits)
  qed
qed

lemma refinesD: "refines r r' \<Longrightarrow> r st t ts = Some x \<Longrightarrow> r' st t ts = Some x"
  unfolding refines_def by blast

lemma enumerateFields_refines:
  assumes "refines r r'"
  shows "enumerateFields r R t is st fs = Some x \<Longrightarrow> enumerateFields r' R t is st fs = Some x"
proof (induction "is" arbitrary: st fs)
  case Nil
  then show ?case by simp
next
  case (Cons i "is")
  show ?case
  proof (cases "retained R t i")
    case False
    with Cons show ?thesis
      by (auto simp: retained_def split: result.splits if_splits)
  next
    case True
    then obtain f ts where f: "Field R t i = Ok f" "PkgPath f = []"
      and ts: "parseStructTag R t i = Ok ts" "\<not> ignored ts"
      by (auto simp: retained_def split: result.splits)
    with Cons.prems obtain y where y: "r st (Type f) ts = Some y"
      by (auto split: option.splits)
    from refinesD [OF assms y] have y': "r' st (Type f) ts = Some y" .
    obtain st1 r1 where "y = (st1, r1)" by (cases y)
    with Cons.prems Cons.IH f ts y y' show ?thesis
      by (cases r1) simp_all
  qed
qed

lemma structFieldsWith_refines:
  assumes "refines r r'"
  shows "structFieldsWith r R t st = Some x \<Longrightarrow> structFieldsWith r' R t st = Some x"
  by (auto simp: structFieldsWith_enumerate split: result.splits
      dest: enumerateFields_refines [OF assms])

lemma exec_refines:
  assumes "refines r r'"
  shows "exec g r R st = Some x \<Longrightarrow> exec g r' R st = Some x"
proof (induction g arbitrary: st)
  case (Return y)
  then show ?case by simp
next
  case (CallCachedTypeInfo1 t ts k)
  from CallCachedTypeInfo1.prems obtain y where y: "r st t ts = Some y"
    by (auto split: option.splits)
  from refinesD [OF assms y] have y': "r' st t ts = Some y" .
  obtain st1 r1 where "y = (st1, r1)" by (cases y)
  with CallCachedTypeInfo1.prems y y' CallCachedTypeInfo1.IH [OF rangeI] show ?case
    by (cases r1) simp_all
next
  case (CallStructFields t k)
  from CallStructFields.prems obtain y where y: "structFieldsWith r R t st = Some y"
    by (auto split: option.splits)
  from structFieldsWith_refines [OF assms y] have y': "structFieldsWith r' R t st = Some y" .
  obtain st1 r1 where "y = (st1, r1)" by (cases y)
  with CallStructFields.prems y y' CallStructFields.IH [OF rangeI] show ?case
    by (cases r1) simp_all
qed

lemma genTypeInfoWith_refines:
  assumes "refines r r'"
  shows "genTypeInfoWith r G R t ts st = Some x \<Longrightarrow> genTypeInfoWith r' G R t ts st = Some x"
  unfolding genTypeInfoWith_def
  by (auto split: option.splits result.splits dest!: exec_refines [OF assms])

lemma cachedTypeInfo1_Suc: "refines (cachedTypeInfo1 n G R) (cachedTypeInfo1 (Suc n) G R)"
proof (induction n)
  case 0
  show ?case
    unfolding refines_def
    by (auto simp: cachedTypeInfo1_0 cachedTypeInfo1_hit split: option.splits)
next
  case (Suc n)
  show ?case
    unfolding refines_def
  proof (intro allI impI)
    fix st t ts x
    assume run: "cachedTypeInfo1 (Suc n) G R st t ts = Some x"
    show "cachedTypeInfo1 (Suc (Suc n)) G R st t ts = Some x"
    proof (cases "typeCache st (t, ts)")
      case (Some p)
      with run show ?thesis by (simp add: cachedTypeInfo1_hit)
    next
      case None
      from run obtain y where
        gen: "genTypeInfo n G R t ts (placeholder st (t, ts)) = Some y"
        by (auto simp: cachedTypeInfo1_miss [OF None] split: option.splits)
      then have "genTypeInfo (Suc n) G R t ts (placeholder st (t, ts)) = Some y"
        unfolding genTypeInfo_def by (rule genTypeInfoWith_refines [OF Suc])
      with run gen show ?thesis by (simp add: cachedTypeInfo1_miss [OF None])
    qed
  qed
qed

lemma cachedTypeInfo1_fuel:
  "cachedTypeInfo1 n G R st t ts = Some x \<Longrightarrow> cachedTypeInfo1 (n + k) G R st t ts = Some x"
proof (induction k)
  case 0
  then show ?case by simp
next
  case (Suc k)
  from refinesD [OF cachedTypeInfo1_Suc Suc.IH [OF Suc.prems]] show ?case by simp
qed

subsection \<open>Evaluating the example\<close>

lemmas example_eval =
  cachedTypeInfo_def cachedTypeInfo1_eval genTypeInfoWith_def structFieldsWith_enumerate
  NumField_def Field_def parseStructTag_def Get_def TrimSpace_def TrimLeft.simps
  TrimRight.simps spaceAtStart_def spaceAtEnd_def spaces_def Let_def upt_rec
  kindGenerator_def byKind_def exampleTypes_def emptyCache_def noTags_def

section \<open>The claims\<close>

subsection \<open>The tag parser\<close>

text \<open>
  C3 as it is stated fails: the tag \<^verbatim>\<open>rlp:"x,tail"\<close> contains the token \<^verbatim>\<open>tail\<close>, on a
  field that is neither last nor a slice, and the parser returns the error of the
  unknown token \<^verbatim>\<open>x\<close>, which it reads first, not the position error.
\<close>

theorem tail_after_unknown_token_counterexample:
  "''tail'' \<in> set (tokens (Fields (exampleTypes 7) ! 0)) \<and>
   int 0 \<noteq> int (length (Fields (exampleTypes 7))) - 1 \<and>
   Kind (exampleTypes (Type (Fields (exampleTypes 7) ! 0))) \<noteq> Slice \<and>
   parseStructTag exampleTypes 7 0 = Err (TagSyntaxError ''x'' 7 ''X'') \<and>
   parseStructTag exampleTypes 7 0 \<noteq> Err (TagPositionError 7 ''X'')"
  by (simp add: tokens_def example_eval)

text \<open>
  C3, as amended. The tokens are read from left to right, so the checks of \<^verbatim>\<open>tail\<close>
  run when the parser reaches a \<^verbatim>\<open>tail\<close> token, every token before it being empty,
  \<^verbatim>\<open>-\<close> or \<^verbatim>\<open>nil\<close>. Then the position is checked first: on a field that is
  not at index \<^verbatim>\<open>NumField() - 1\<close> the parser returns the position error, whatever
  the kind of the field's type; only on the last field, when the kind of its type is
  not \<^verbatim>\<open>Slice\<close>, it returns the type error. So a field that is neither last nor a
  slice gets the position error.
\<close>

theorem tail_position_checked_before_type:
  assumes "Field R t fi = Ok f"
    and "Split (Get (Tag f) ''rlp'') CHR '','' = pre @ u # rest"
    and "\<forall>v \<in> set pre. TrimSpace v \<in> {[], ''-'', ''nil''}"
    and "TrimSpace u = ''tail''"
  shows "(int fi \<noteq> int (length (Fields (R t))) - 1 \<longrightarrow>
            parseStructTag R t fi = Err (TagPositionError t (Name f))) \<and>
         (int fi = int (length (Fields (R t))) - 1 \<and> Kind (R (Type f)) \<noteq> Slice \<longrightarrow>
            parseStructTag R t fi = Err (TagTypeError t (Name f)))"
proof -
  note nf = Field_Ok_NumField [OF assms(1)]
  from parseTokens_known [OF assms(3), of R t fi f _ "u # rest"] obtain ts' where
    "parseStructTag R t fi = parseTokens R t fi f ts' (u # rest)"
    by (auto simp: parseStructTag_def assms(1,2))
  with assms(4) show ?thesis by (simp add: nf Let_def)
qed

text \<open>In the example, type 5 has \<^verbatim>\<open>tail\<close> on its first field, a \<^verbatim>\<open>uint64\<close>, and type 6
  on its last field, a \<^verbatim>\<open>uint64\<close>.\<close>

theorem tail_position_checked_before_type_witness:
  "Field exampleTypes 5 0 =
     Ok \<lparr>Name = ''X'', PkgPath = [], Type = 0, Tag = [(''rlp'', ''tail'')]\<rparr> \<and>
   Split ''tail'' CHR '','' = [] @ ''tail'' # [] \<and> TrimSpace ''tail'' = ''tail'' \<and>
   int 0 \<noteq> int (length (Fields (exampleTypes 5))) - 1 \<and>
   Kind (exampleTypes 0) \<noteq> Slice \<and>
   parseStructTag exampleTypes 5 0 = Err (TagPositionError 5 ''X'') \<and>
   Field exampleTypes 6 1 =
     Ok \<lparr>Name = ''Y'', PkgPath = [], Type = 0, Tag = [(''rlp'', ''tail'')]\<rparr> \<and>
   int 1 = int (length (Fields (exampleTypes 6))) - 1 \<and>
   parseStructTag exampleTypes 6 1 = Err (TagTypeError 6 ''Y'')"
proof -
  let ?X = "\<lparr>Name = ''X'', PkgPath = [], Type = 0, Tag = [(''rlp'', ''tail'')]\<rparr>"
  let ?Y = "\<lparr>Name = ''Y'', PkgPath = [], Type = 0, Tag = [(''rlp'', ''tail'')]\<rparr>"
  have x: "Field exampleTypes 5 0 = Ok ?X" by (simp add: Field_def exampleTypes_def)
  have y: "Field exampleTypes 6 1 = Ok ?Y" by (simp add: Field_def exampleTypes_def)
  have trim: "TrimSpace ''tail'' = ''tail''"
    by (simp add: TrimSpace_def TrimLeft.simps TrimRight.simps spaceAtStart_def spaceAtEnd_def
        spaces_def)
  have sx: "Split (Get (Tag ?X) ''rlp'') CHR '','' = [] @ ''tail'' # []"
    and sy: "Split (Get (Tag ?Y) ''rlp'') CHR '','' = [] @ ''tail'' # []"
    by (simp_all add: Get_def)
  have none: "\<forall>v \<in> set []. TrimSpace v \<in> {[], ''-'', ''nil''}" by simp
  have facts: "int 0 \<noteq> int (length (Fields (exampleTypes 5))) - 1"
     "Kind (exampleTypes 0) \<noteq> Slice"
     "int 1 = int (length (Fields (exampleTypes 6))) - 1"
    by (simp_all add: exampleTypes_def)
  from tail_position_checked_before_type [OF x sx none trim] facts
  have "parseStructTag exampleTypes 5 0 = Err (TagPositionError 5 ''X'')"
    by simp
  moreover from tail_position_checked_before_type [OF y sy none trim] facts
  have "parseStructTag exampleTypes 6 1 = Err (TagTypeError 6 ''Y'')"
    by simp
  ultimately show ?thesis using x y trim facts by simp
qed

text \<open>
  C6 as it is stated fails: in type 12 the tag with \<^verbatim>\<open>tail\<close> is on a field that is
  not exported, not the last field and not a slice. \<^verbatim>\<open>structFields\<close> passes over
  the field without parsing its tag, and the struct resolves.
\<close>

theorem tail_on_unexported_field_counterexample:
  "PkgPath (Fields (exampleTypes 12) ! 0) \<noteq> [] \<and>
   ''tail'' \<in> set (tokens (Fields (exampleTypes 12) ! 0)) \<and>
   int 0 \<noteq> int (length (Fields (exampleTypes 12))) - 1 \<and>
   Kind (exampleTypes (Type (Fields (exampleTypes 12) ! 0))) \<noteq> Slice \<and>
   snd (the (structFields 1 (kindGenerator exampleTypes) exampleTypes 12 emptyCache)) =
     Ok [\<lparr>index = 1, info = 0\<rparr>] \<and>
   snd (the (cachedTypeInfo 2 (kindGenerator exampleTypes) exampleTypes emptyCache 12 noTags)) =
     Ok 0"
  by (simp add: tokens_def structFields_def example_eval numeral_2_eq_2)

text \<open>
  C6, as amended. For an exported field of a struct whose tag has the token \<^verbatim>\<open>tail\<close>:
  when \<^verbatim>\<open>parseStructTag\<close> accepts the tag, the field is at index
  \<^verbatim>\<open>NumField() - 1\<close>, so it is the last exported field, the kind of its type is
  \<^verbatim>\<open>Slice\<close>, and the tags returned have \<open>tail\<close> set. Otherwise
  \<^verbatim>\<open>parseStructTag\<close> returns an error, \<^verbatim>\<open>structFields\<close> never succeeds for the
  struct, and neither does a resolve of the struct by a generator that enumerates the
  fields and passes the error on. The tag of a field that is not exported is not parsed.
\<close>

theorem tail_only_on_last_slice_field:
  assumes "Field R t i = Ok f" and "PkgPath f = []" and "''tail'' \<in> set (tokens f)"
  shows
    "(\<forall>ts. parseStructTag R t i = Ok ts \<longrightarrow>
        int i = int (length (Fields (R t))) - 1 \<and>
        (\<forall>j < length (Fields (R t)). PkgPath (Fields (R t) ! j) = [] \<longrightarrow> j \<le> i) \<and>
        Kind (R (Type f)) = Slice \<and> tail ts) \<and>
     (\<not> (int i = int (length (Fields (R t))) - 1 \<and> Kind (R (Type f)) = Slice) \<longrightarrow>
        (\<exists>e. parseStructTag R t i = Err e) \<and>
        (\<forall>n (G :: ('d, 'w) generator) st st' fs.
           structFields n G R t st \<noteq> Some (st', Ok fs)) \<and>
        (\<forall>n (G :: ('d, 'w) generator) st st' p ts k.
           makeDecoder G t ts = CallStructFields t k \<and> (\<forall>e. k (Inl e) = Return (Err e)) \<and>
           typeCache st (t, ts) = None \<longrightarrow>
           cachedTypeInfo n G R st t ts \<noteq> Some (st', Ok p)))"
proof (rule conjI)
  show "\<forall>ts. parseStructTag R t i = Ok ts \<longrightarrow>
        int i = int (length (Fields (R t))) - 1 \<and>
        (\<forall>j < length (Fields (R t)). PkgPath (Fields (R t) ! j) = [] \<longrightarrow> j \<le> i) \<and>
        Kind (R (Type f)) = Slice \<and> tail ts"
  proof (intro allI impI)
    fix ts
    assume ok: "parseStructTag R t i = Ok ts"
    from ok parseStructTag_violation [OF assms(1,3)]
    have last: "int i = int (length (Fields (R t))) - 1" and slice: "Kind (R (Type f)) = Slice"
      by auto
    from ok assms(1,3) parseTokens_flags [of R t i f _ _ ts] have "tail ts"
      by (simp add: parseStructTag_def tokens_def)
    moreover from last have "\<forall>j < length (Fields (R t)). j \<le> i" by auto
    ultimately show "int i = int (length (Fields (R t))) - 1 \<and>
        (\<forall>j < length (Fields (R t)). PkgPath (Fields (R t) ! j) = [] \<longrightarrow> j \<le> i) \<and>
        Kind (R (Type f)) = Slice \<and> tail ts"
      using last slice by simp
  qed
  show "\<not> (int i = int (length (Fields (R t))) - 1 \<and> Kind (R (Type f)) = Slice) \<longrightarrow>
        (\<exists>e. parseStructTag R t i = Err e) \<and>
        (\<forall>n (G :: ('d, 'w) generator) st st' fs.
           structFields n G R t st \<noteq> Some (st', Ok fs)) \<and>
        (\<forall>n (G :: ('d, 'w) generator) st st' p ts k.
           makeDecoder G t ts = CallStructFields t k \<and> (\<forall>e. k (Inl e) = Return (Err e)) \<and>
           typeCache st (t, ts) = None \<longrightarrow>
           cachedTypeInfo n G R st t ts \<noteq> Some (st', Ok p))"
  proof (rule impI)
    assume bad: "\<not> (int i = int (length (Fields (R t))) - 1 \<and> Kind (R (Type f)) = Slice)"
    have "\<exists>e. parseStructTag R t i = Err e"
      by (rule parseStructTag_violation [OF assms(1,3) bad])
    moreover have "\<forall>n (G :: ('d, 'w) generator) st st' fs.
           structFields n G R t st \<noteq> Some (st', Ok fs)"
      using tail_violation_structFields [OF assms bad] by blast
    moreover have "\<forall>n (G :: ('d, 'w) generator) st st' p ts k.
           makeDecoder G t ts = CallStructFields t k \<and> (\<forall>e. k (Inl e) = Return (Err e)) \<and>
           typeCache st (t, ts) = None \<longrightarrow>
           cachedTypeInfo n G R st t ts \<noteq> Some (st', Ok p)"
      using tail_violation_resolve [OF assms bad] by blast
    ultimately show "(\<exists>e. parseStructTag R t i = Err e) \<and>
        (\<forall>n (G :: ('d, 'w) generator) st st' fs.
           structFields n G R t st \<noteq> Some (st', Ok fs)) \<and>
        (\<forall>n (G :: ('d, 'w) generator) st st' p ts k.
           makeDecoder G t ts = CallStructFields t k \<and> (\<forall>e. k (Inl e) = Return (Err e)) \<and>
           typeCache st (t, ts) = None \<longrightarrow>
           cachedTypeInfo n G R st t ts \<noteq> Some (st', Ok p))"
      by blast
  qed
qed

text \<open>In the example, type 8 has \<^verbatim>\<open>tail\<close> on its last field, a slice, and type 5 on its
  first field.\<close>

theorem tail_only_on_last_slice_field_witness:
  "parseStructTag exampleTypes 8 3 = Ok \<lparr>nilOK = False, tail = True, ignored = False\<rparr> \<and>
   int 3 = int (length (Fields (exampleTypes 8))) - 1 \<and>
   Kind (exampleTypes 1) = Slice \<and>
   ''tail'' \<in> set (tokens (Fields (exampleTypes 8) ! 3)) \<and>
   ''tail'' \<in> set (tokens (Fields (exampleTypes 5) ! 0)) \<and>
   int 0 \<noteq> int (length (Fields (exampleTypes 5))) - 1 \<and>
   (\<exists>e. parseStructTag exampleTypes 5 0 = Err e) \<and>
   structFields 1 (kindGenerator exampleTypes) exampleTypes 5 emptyCache \<noteq>
     Some (emptyCache, Ok [])"
proof -
  let ?Rest = "\<lparr>Name = ''Rest'', PkgPath = [], Type = 1, Tag = [(''rlp'', ''tail'')]\<rparr>"
  let ?X = "\<lparr>Name = ''X'', PkgPath = [], Type = 0, Tag = [(''rlp'', ''tail'')]\<rparr>"
  have f: "Field exampleTypes 8 3 = Ok ?Rest" "Field exampleTypes 5 0 = Ok ?X"
    by (simp_all add: Field_def exampleTypes_def)
  have e: "PkgPath ?Rest = []" "PkgPath ?X = []" by simp_all
  have tk: "''tail'' \<in> set (tokens ?Rest)" "''tail'' \<in> set (tokens ?X)"
    by (simp_all add: tokens_def Get_def TrimSpace_def TrimLeft.simps TrimRight.simps
        spaceAtStart_def spaceAtEnd_def spaces_def)
  have ok: "parseStructTag exampleTypes 8 3 = Ok \<lparr>nilOK = False, tail = True, ignored = False\<rparr>"
    by (simp add: example_eval)
  have nl: "int 0 \<noteq> int (length (Fields (exampleTypes 5))) - 1"
    by (simp add: exampleTypes_def)
  then have bad: "\<not> (int 0 = int (length (Fields (exampleTypes 5))) - 1 \<and>
      Kind (exampleTypes (Type ?X)) = Slice)"
    by blast
  have nth: "Fields (exampleTypes 8) ! 3 = ?Rest" "Fields (exampleTypes 5) ! 0 = ?X"
    by (simp_all add: exampleTypes_def)
  from tail_only_on_last_slice_field [OF f(1) e(1) tk(1)] ok
  have "int 3 = int (length (Fields (exampleTypes 8))) - 1 \<and> Kind (exampleTypes 1) = Slice"
    by simp
  moreover from tail_only_on_last_slice_field [OF f(2) e(2) tk(2), where 'd = codec and 'w = codec] bad
  have "(\<exists>e. parseStructTag exampleTypes 5 0 = Err e) \<and>
     structFields 1 (kindGenerator exampleTypes) exampleTypes 5 emptyCache \<noteq>
       Some (emptyCache, Ok [])"
    by blast
  ultimately show ?thesis using ok tk nl nth by simp
qed

text \<open>
  C10. For a field with no \<^verbatim>\<open>rlp\<close> tag (\<^verbatim>\<open>Tag.Get("rlp")\<close> is the empty string),
  the split of the empty string is one empty token, which the \<^verbatim>\<open>switch\<close> passes over,
  and \<^verbatim>\<open>parseStructTag\<close> returns the zero tags and no error.
\<close>

theorem no_rlp_tag_zero_tags:
  assumes "Field R t fi = Ok f" and "Get (Tag f) ''rlp'' = []"
  shows "Split (Get (Tag f) ''rlp'') CHR '','' = [[]] \<and>
         parseStructTag R t fi = Ok \<lparr>nilOK = False, tail = False, ignored = False\<rparr>"
  using assms by (simp add: parseStructTag_def TrimSpace_Nil)

theorem no_rlp_tag_zero_tags_witness:
  "Field exampleTypes 11 0 = Ok \<lparr>Name = ''X'', PkgPath = [], Type = 0, Tag = []\<rparr> \<and>
   Get [] ''rlp'' = [] \<and>
   parseStructTag exampleTypes 11 0 = Ok \<lparr>nilOK = False, tail = False, ignored = False\<rparr>"
proof -
  have f: "Field exampleTypes 11 0 = Ok \<lparr>Name = ''X'', PkgPath = [], Type = 0, Tag = []\<rparr>"
    by (simp add: Field_def exampleTypes_def)
  have g: "Get (Tag \<lparr>Name = ''X'', PkgPath = [], Type = 0, Tag = []\<rparr>) ''rlp'' = []"
    by (simp add: Get_def)
  from no_rlp_tag_zero_tags [OF f g] f g show ?thesis by simp
qed

subsection \<open>The field enumerator\<close>

text \<open>
  C8. For a struct type, \<^verbatim>\<open>structFields\<close> is the enumeration \<open>enumerateFields\<close> over
  the indices of the fields in the order of their declaration. When it succeeds, the
  descriptors are those of the retained fields (exported, the parsed tag not setting
  \<open>ignored\<close>), in that order, the tag of every exported field has parsed, and the
  pointer of each descriptor is the cache entry under the field's type and parsed
  tags. When it returns an error, the error is the parse error of an exported field or
  the error of the resolve of a retained field, and it is the error of \<^verbatim>\<open>genTypeInfo\<close>
  for the struct when the generator enumerates the fields and passes the error on.
\<close>

theorem structFields_enumerates_retained_fields:
  fixes G :: "('d, 'w) generator" and st :: "('d, 'w) state"
  assumes "Kind (R t) = Struct"
  shows
    "structFields n G R t st =
       enumerateFields (cachedTypeInfo1 n G R) R t [0..<length (Fields (R t))] st [] \<and>
     (\<forall>st' fs. structFields n G R t st = Some (st', Ok fs) \<longrightarrow>
        map index fs = filter (retained R t) [0..<length (Fields (R t))] \<and>
        (\<forall>d \<in> set fs. resolved R t st' d)) \<and>
     (\<forall>st' fs i f. structFields n G R t st = Some (st', Ok fs) \<and>
        Field R t i = Ok f \<and> PkgPath f = [] \<longrightarrow> (\<exists>ts. parseStructTag R t i = Ok ts)) \<and>
     (\<forall>st' e. structFields n G R t st = Some (st', Err e) \<longrightarrow>
        (\<exists>i < length (Fields (R t)). PkgPath (Fields (R t) ! i) = [] \<and>
           (parseStructTag R t i = Err e \<or>
            (\<exists>ts (s :: ('d, 'w) state) s'. parseStructTag R t i = Ok ts \<and> \<not> ignored ts \<and>
               cachedTypeInfo1 n G R s (Type (Fields (R t) ! i)) ts = Some (s', Err e))))) \<and>
     (\<forall>ts k st' e. makeDecoder G t ts = CallStructFields t k \<and> k (Inl e) = Return (Err e) \<and>
        structFields n G R t (st\<lparr>gens := gens st @ [(t, ts)]\<rparr>) = Some (st', Err e) \<longrightarrow>
        genTypeInfo n G R t ts st = Some (st', Err e))"
proof -
  let ?is = "[0..<length (Fields (R t))]"
  have eq: "structFields n G R t st = enumerateFields (cachedTypeInfo1 n G R) R t ?is st []"
    using structFields_enumerate [of R t n G st] assms by simp
  have ok: "map index fs = filter (retained R t) ?is \<and> (\<forall>d \<in> set fs. resolved R t st' d)"
    if "structFields n G R t st = Some (st', Ok fs)" for st' fs
  proof -
    from that eq have run: "enumerateFields (cachedTypeInfo1 n G R) R t ?is st [] = Some (st', Ok fs)"
      by simp
    from enumerateFields_indices [OF run]
      enumerateFields_resolved [OF cachedTypeInfo1_growing cachedTypeInfo1_is_caching run]
    show ?thesis by simp
  qed
  have parsed: "\<exists>ts. parseStructTag R t i = Ok ts"
    if "structFields n G R t st = Some (st', Ok fs) \<and> Field R t i = Ok f \<and> PkgPath f = []"
    for st' fs i f
    using that structFields_parsed [of n G R t st st' fs i f] by blast
  have err: "\<exists>i < length (Fields (R t)). PkgPath (Fields (R t) ! i) = [] \<and>
           (parseStructTag R t i = Err e \<or>
            (\<exists>ts (s :: ('d, 'w) state) s'. parseStructTag R t i = Ok ts \<and> \<not> ignored ts \<and>
               cachedTypeInfo1 n G R s (Type (Fields (R t) ! i)) ts = Some (s', Err e)))"
    if "structFields n G R t st = Some (st', Err e)" for st' e
  proof -
    from that eq have run: "enumerateFields (cachedTypeInfo1 n G R) R t ?is st [] = Some (st', Err e)"
      by simp
    have all: "\<forall>i \<in> set ?is. \<exists>f. Field R t i = Ok f" using assms by (simp add: Field_Ok)
    from enumerateFields_error [OF run all] show ?thesis
      by (auto simp: Field_Ok)
  qed
  have gen: "genTypeInfo n G R t ts st = Some (st', Err e)"
    if "makeDecoder G t ts = CallStructFields t k \<and> k (Inl e) = Return (Err e) \<and>
        structFields n G R t (st\<lparr>gens := gens st @ [(t, ts)]\<rparr>) = Some (st', Err e)"
    for ts k st' e
    using that genTypeInfo_struct_Err [of G t ts k e n R st st'] by blast
  from eq ok parsed err gen show ?thesis by blast
qed

text \<open>In the example, type 8 has an unexported field and a field with the tag \<^verbatim>\<open>-\<close>.\<close>

theorem structFields_enumerates_retained_fields_witness:
  "Kind (exampleTypes 8) = Struct \<and>
   (\<exists>st'. structFields 1 (kindGenerator exampleTypes) exampleTypes 8 emptyCache =
      Some (st', Ok [\<lparr>index = 0, info = 0\<rparr>, \<lparr>index = 3, info = 1\<rparr>]) \<and>
      typeCache st' (0, noTags) = Some 0 \<and>
      typeCache st' (1, noTags\<lparr>tail := True\<rparr>) = Some 1) \<and>
   filter (retained exampleTypes 8) [0..<length (Fields (exampleTypes 8))] = [0, 3]"
proof -
  have kind: "Kind (exampleTypes 8) = Struct" by (simp add: exampleTypes_def)
  have "\<exists>st'. structFields 1 (kindGenerator exampleTypes) exampleTypes 8 emptyCache =
      Some (st', Ok [\<lparr>index = 0, info = 0\<rparr>, \<lparr>index = 3, info = 1\<rparr>]) \<and>
      typeCache st' (0, noTags) = Some 0 \<and>
      typeCache st' (1, noTags\<lparr>tail := True\<rparr>) = Some 1"
    by (simp add: structFields_def example_eval)
  then obtain st' where
    run: "structFields 1 (kindGenerator exampleTypes) exampleTypes 8 emptyCache =
      Some (st', Ok [\<lparr>index = 0, info = 0\<rparr>, \<lparr>index = 3, info = 1\<rparr>])"
    and c: "typeCache st' (0, noTags) = Some 0"
      "typeCache st' (1, noTags\<lparr>tail := True\<rparr>) = Some 1"
    by blast
  from structFields_enumerates_retained_fields [where R = exampleTypes and t = 8 and n = 1
      and G = "kindGenerator exampleTypes" and st = emptyCache] kind run
  have "map index [\<lparr>index = 0, info = 0\<rparr>, \<lparr>index = 3, info = 1\<rparr>] =
      filter (retained exampleTypes 8) [0..<length (Fields (exampleTypes 8))]"
    by blast
  then have "filter (retained exampleTypes 8) [0..<length (Fields (exampleTypes 8))] = [0, 3]"
    by simp
  with kind run c show ?thesis by blast
qed

subsection \<open>The cache\<close>

text \<open>
  C1. A key that is present is returned at once: \<^verbatim>\<open>cachedTypeInfo1\<close> returns the pointer
  in the cache and leaves the state as it is, at any fuel, so no generation is entered.
  That is the case of a key whose generation is running, the dummy value having been
  put into the cache before \<^verbatim>\<open>genTypeInfo\<close> is called. So the nesting of generations
  is bounded: when the keys that can be asked for, starting from a key, are finitely many
  (as for any Go type, self-referential or not), the resolve of the key returns, with
  as many nested generations as there are keys not yet in the cache, and with the same
  result at any greater fuel.
\<close>

theorem present_entry_returned_and_resolution_terminates:
  fixes st :: "('d, 'w) state"
  assumes "finite K" and "closedUnder G R K" and "(t, ts) \<in> K"
    and "card (K - dom (typeCache st)) \<le> n"
  shows "cachedTypeInfo1 m G R (placeholder st (t, ts)) t ts =
           Some (placeholder st (t, ts), Ok (length (heap st))) \<and>
         (\<forall>s p. typeCache s (t, ts) = Some p \<longrightarrow> cachedTypeInfo1 m G R s t ts = Some (s, Ok p)) \<and>
         (\<exists>st' r. \<forall>k. cachedTypeInfo (n + k) G R st t ts = Some (st', r))"
proof (intro conjI)
  have "typeCache (placeholder st (t, ts)) (t, ts) = Some (length (heap st))"
    by (simp add: placeholder_def)
  then show "cachedTypeInfo1 m G R (placeholder st (t, ts)) t ts =
           Some (placeholder st (t, ts), Ok (length (heap st)))"
    by (rule cachedTypeInfo1_hit)
  show "\<forall>s p. typeCache s (t, ts) = Some p \<longrightarrow> cachedTypeInfo1 m G R s t ts = Some (s, Ok p)"
    by (simp add: cachedTypeInfo1_hit)
  from cachedTypeInfo1_returns [OF assms] obtain st' r where
    "cachedTypeInfo1 n G R st t ts = Some (st', r)"
    by fastforce
  then have "cachedTypeInfo (n + k) G R st t ts = Some (st', r)" for k
    by (simp add: cachedTypeInfo_eq cachedTypeInfo1_fuel)
  then show "\<exists>st' r. \<forall>k. cachedTypeInfo (n + k) G R st t ts = Some (st', r)"
    by blast
qed

text \<open>In the example, \<^verbatim>\<open>Node\<close> refers to itself through a pointer and \<^verbatim>\<open>Tree\<close>
  through a slice.\<close>

theorem present_entry_returned_and_resolution_terminates_witness:
  "(\<exists>st' r. cachedTypeInfo 3 (kindGenerator exampleTypes) exampleTypes emptyCache 3 noTags =
      Some (st', r)) \<and>
   (\<exists>st' r. cachedTypeInfo 2 (kindGenerator exampleTypes) exampleTypes emptyCache 9 noTags =
      Some (st', r)) \<and>
   cachedTypeInfo1 0 (kindGenerator exampleTypes) exampleTypes
     (placeholder emptyCache (3, noTags)) 3 noTags =
       Some (placeholder emptyCache (3, noTags), Ok 0)"
proof -
  let ?K = "{(3, noTags), (0, noTags), (4, noTags\<lparr>nilOK := True\<rparr>)}"
  let ?L = "{(9, noTags), (10, noTags)}"
  have fin: "finite ?K" "finite ?L" by simp_all
  have keys: "fieldKeys exampleTypes 3 = [(0, noTags), (4, noTags\<lparr>nilOK := True\<rparr>)]"
    "fieldKeys exampleTypes 9 = [(10, noTags)]"
    by (simp_all add: fieldKeys_def example_eval)
  have closed: "closedUnder (kindGenerator exampleTypes) exampleTypes ?K"
    "closedUnder (kindGenerator exampleTypes) exampleTypes ?L"
  proof -
    have k: "Kind (exampleTypes 3) = Struct" "Kind (exampleTypes 0) = Uint64"
      "Kind (exampleTypes 4) = Ptr" "Elem (exampleTypes 4) = 3"
      "Kind (exampleTypes 9) = Struct" "Kind (exampleTypes 10) = Slice"
      "Elem (exampleTypes 10) = 9"
      by (simp_all add: exampleTypes_def)
    have w: "within exampleTypes ?K (byKind exampleTypes 3 ts)"
      "within exampleTypes ?K (byKind exampleTypes 0 ts)"
      "within exampleTypes ?K (byKind exampleTypes 4 ts)"
      "within exampleTypes ?L (byKind exampleTypes 9 ts)"
      "within exampleTypes ?L (byKind exampleTypes 10 ts)" for ts
      by (simp_all add: byKind_def k keys split: sum.split)
    show "closedUnder (kindGenerator exampleTypes) exampleTypes ?K"
      "closedUnder (kindGenerator exampleTypes) exampleTypes ?L"
      by (simp_all add: closedUnder_def kindGenerator_def w)
  qed
  have mem: "(3, noTags) \<in> ?K" "(9, noTags) \<in> ?L" by simp_all
  have card: "card (?K - dom (typeCache emptyCache)) \<le> 3"
    "card (?L - dom (typeCache emptyCache)) \<le> 2"
    by (simp_all add: emptyCache_def noTags_def)
  from present_entry_returned_and_resolution_terminates [OF fin(1) closed(1) mem(1) card(1), of 0]
  have a: "cachedTypeInfo1 0 (kindGenerator exampleTypes) exampleTypes
     (placeholder emptyCache (3, noTags)) 3 noTags =
       Some (placeholder emptyCache (3, noTags), Ok 0)"
    and "\<exists>st' r. \<forall>k. cachedTypeInfo (3 + k) (kindGenerator exampleTypes) exampleTypes
      emptyCache 3 noTags = Some (st', r)"
    by (simp_all add: emptyCache_def)
  then obtain st' r where "\<forall>k. cachedTypeInfo (3 + k) (kindGenerator exampleTypes)
      exampleTypes emptyCache 3 noTags = Some (st', r)"
    by blast
  then have "cachedTypeInfo (3 + 0) (kindGenerator exampleTypes)
      exampleTypes emptyCache 3 noTags = Some (st', r)"
    by blast
  then have b: "\<exists>st' r. cachedTypeInfo 3 (kindGenerator exampleTypes) exampleTypes emptyCache
      3 noTags = Some (st', r)"
    by auto
  from present_entry_returned_and_resolution_terminates [OF fin(2) closed(2) mem(2) card(2), of 0]
  obtain st'' r' where "\<forall>k. cachedTypeInfo (2 + k) (kindGenerator exampleTypes)
      exampleTypes emptyCache 9 noTags = Some (st'', r')"
    by blast
  then have "cachedTypeInfo (2 + 0) (kindGenerator exampleTypes)
      exampleTypes emptyCache 9 noTags = Some (st'', r')"
    by blast
  then have c: "\<exists>st' r. cachedTypeInfo 2 (kindGenerator exampleTypes) exampleTypes emptyCache
      9 noTags = Some (st', r)"
    by auto
  from a b c show ?thesis by blast
qed

text \<open>
  C2 as it is stated fails in its last part: \<^verbatim>\<open>List\<close> refers to itself through its
  field \<^verbatim>\<open>Next\<close> of type \<^verbatim>\<open>*List\<close>. Resolving \<^verbatim>\<open>List\<close> puts its dummy value
  at 0 and returns 0; the descriptor of \<^verbatim>\<open>Next\<close> has the pointer 1, the entry of
  \<^verbatim>\<open>*List\<close>, not the pointer of the entry of \<^verbatim>\<open>List\<close>.
\<close>

theorem recursive_field_through_pointer_counterexample:
  "Kind (exampleTypes 13) = Struct \<and>
   Type (Fields (exampleTypes 13) ! 0) = 14 \<and>
   Kind (exampleTypes 14) = Ptr \<and> Elem (exampleTypes 14) = 13 \<and>
   snd (the (cachedTypeInfo1 2 (kindGenerator exampleTypes) exampleTypes emptyCache 13 noTags)) =
     Ok 0 \<and>
   typeCache (fst (the (cachedTypeInfo1 2 (kindGenerator exampleTypes) exampleTypes emptyCache
     13 noTags))) (13, noTags) = Some 0 \<and>
   typeCache (placeholder emptyCache (13, noTags)) (13, noTags) = Some 0 \<and>
   snd (the (structFields 1 (kindGenerator exampleTypes) exampleTypes 13
     (placeholder emptyCache (13, noTags)))) = Ok [\<lparr>index = 0, info = 1\<rparr>] \<and>
   info \<lparr>index = 0, info = 1\<rparr> \<noteq> 0"
  by (simp add: structFields_def placeholder_def example_eval numeral_2_eq_2)

text \<open>
  C2, as amended. Whatever a call of \<^verbatim>\<open>cachedTypeInfo1\<close> returns, every entry that was
  in the cache when it was called is still there with the same pointer. When the key was
  absent and the call succeeds, the pointer it returns is the pointer of the dummy value
  it put into the cache before generating (the object \<^verbatim>\<open>new(typeinfo)\<close> allocated),
  the key still maps to it afterwards, and the generated decoder and writer have been
  written into that object. While the generation runs (in every state that extends the
  one with the dummy value) a resolve of the same key returns that pointer. The pointer
  of a field descriptor is the cache entry of the field's own key, its type with its
  parsed tags: it is the pointer of the entry being generated when the field's key is
  the key being generated, and, in a well formed state, only then. So the field through
  which a struct refers to itself by a pointer or a slice has the pointer of the entry
  of the pointer or slice type, and it is the resolve of the element's key, the
  struct's, that returns the struct's own entry.
\<close>

theorem cache_entry_identity:
  assumes "cachedTypeInfo1 n G R st t ts = Some (st', r)"
  shows "(\<forall>k p. typeCache st k = Some p \<longrightarrow> typeCache st' k = Some p) \<and>
    (\<forall>p. typeCache st (t, ts) = None \<and> r = Ok p \<longrightarrow>
       p = length (heap st) \<and>
       typeCache (placeholder st (t, ts)) (t, ts) = Some p \<and>
       typeCache st' (t, ts) = Some p \<and>
       (\<exists>m st2 dec wr.
          n = Suc m \<and>
          genTypeInfo m G R t ts (placeholder st (t, ts)) =
            Some (st2, Ok \<lparr>decoder = Some dec, writer = Some wr\<rparr>) \<and>
          typeCache st2 (t, ts) = Some p \<and>
          st' = st2\<lparr>heap := (heap st2)[p := \<lparr>decoder = Some dec, writer = Some wr\<rparr>]\<rparr> \<and>
          heap st' ! p = \<lparr>decoder = Some dec, writer = Some wr\<rparr>)) \<and>
    (\<forall>s m. extends (placeholder st (t, ts)) s \<longrightarrow>
       cachedTypeInfo1 m G R s t ts = Some (s, Ok (length (heap st)))) \<and>
    (\<forall>s m s' t' fs d f.
       extends (placeholder st (t, ts)) s \<and> structFields m G R t' s = Some (s', Ok fs) \<and>
       d \<in> set fs \<and> Field R t' (index d) = Ok f \<and> Type f = t \<and>
       parseStructTag R t' (index d) = Ok ts \<longrightarrow>
       info d = length (heap st)) \<and>
    (\<forall>s m s' t' fs d f fts.
       wellFormed s \<and> extends (placeholder st (t, ts)) s \<and>
       structFields m G R t' s = Some (s', Ok fs) \<and>
       d \<in> set fs \<and> Field R t' (index d) = Ok f \<and>
       parseStructTag R t' (index d) = Ok fts \<longrightarrow>
       typeCache s' (Type f, fts) = Some (info d) \<and>
       (info d = length (heap st)) = ((Type f, fts) = (t, ts)))"
proof (intro conjI allI impI)
  let ?st1 = "placeholder st (t, ts)"
  have ph: "typeCache ?st1 (t, ts) = Some (length (heap st))"
    by (simp add: placeholder_def)
  have "extends st st'" by (rule growingD [OF cachedTypeInfo1_growing assms])
  then show "typeCache st k = Some p \<Longrightarrow> typeCache st' k = Some p" for k p
    unfolding extends_def by blast
  {
    fix s m
    assume "extends ?st1 s"
    with ph have "typeCache s (t, ts) = Some (length (heap st))" by (simp add: extends_def)
    then show "cachedTypeInfo1 m G R s t ts = Some (s, Ok (length (heap st)))"
      by (rule cachedTypeInfo1_hit)
  }
  {
    fix s m s' t' fs d f
    assume h: "extends ?st1 s \<and> structFields m G R t' s = Some (s', Ok fs) \<and>
       d \<in> set fs \<and> Field R t' (index d) = Ok f \<and> Type f = t \<and>
       parseStructTag R t' (index d) = Ok ts"
    then have kind: "Kind (R t') = Struct" by (simp add: Field_Ok)
    from h have run: "enumerateFields (cachedTypeInfo1 m G R) R t'
        [0..<length (Fields (R t'))] s [] = Some (s', Ok fs)"
      using structFields_enumerate [of R t' m G s] kind by simp
    from enumerateFields_resolved [OF cachedTypeInfo1_growing cachedTypeInfo1_is_caching run] h
    have "resolved R t' s' d" by simp
    with h have "typeCache s' (t, ts) = Some (info d)" by (auto simp: resolved_def)
    moreover from h have "extends ?st1 s'"
      by (blast intro: extends_trans structFields_extends)
    with ph have "typeCache s' (t, ts) = Some (length (heap st))" by (simp add: extends_def)
    ultimately show "info d = length (heap st)" by simp
  }
  {
    fix s m s' t' fs d f fts
    assume h: "wellFormed s \<and> extends ?st1 s \<and>
       structFields m G R t' s = Some (s', Ok fs) \<and>
       d \<in> set fs \<and> Field R t' (index d) = Ok f \<and>
       parseStructTag R t' (index d) = Ok fts"
    then have kind: "Kind (R t') = Struct" by (simp add: Field_Ok)
    from h have run: "enumerateFields (cachedTypeInfo1 m G R) R t'
        [0..<length (Fields (R t'))] s [] = Some (s', Ok fs)"
      using structFields_enumerate [of R t' m G s] kind by simp
    from enumerateFields_resolved [OF cachedTypeInfo1_growing cachedTypeInfo1_is_caching run] h
    have "resolved R t' s' d" by simp
    with h have fld: "typeCache s' (Type f, fts) = Some (info d)" by (auto simp: resolved_def)
    from h have "extends ?st1 s'"
      by (blast intro: extends_trans structFields_extends)
    with ph have outer: "typeCache s' (t, ts) = Some (length (heap st))"
      by (simp add: extends_def)
    from h have wf: "wellFormed s'" by (blast intro: structFields_wellFormed)
    show "typeCache s' (Type f, fts) = Some (info d)" by (rule fld)
    show "(info d = length (heap st)) = ((Type f, fts) = (t, ts))"
    proof
      assume "info d = length (heap st)"
      with fld have same: "typeCache s' (Type f, fts) = Some (length (heap st))" by simp
      from wf have "typeCache s' k = Some p \<Longrightarrow> typeCache s' k' = Some p \<Longrightarrow> k = k'"
        for k k' p
        unfolding wellFormed_def by blast
      from this [OF same outer] show "(Type f, fts) = (t, ts)" .
    next
      assume "(Type f, fts) = (t, ts)"
      with fld outer show "info d = length (heap st)" by simp
    qed
  }
  fix p
  assume h: "typeCache st (t, ts) = None \<and> r = Ok p"
  then have miss: "typeCache st (t, ts) = None" and r: "r = Ok p" by simp_all
  from assms miss obtain m where n: "n = Suc m"
    by (cases n) (auto simp: cachedTypeInfo1_0)
  from assms miss r obtain st2 ti where
    gen: "genTypeInfo m G R t ts ?st1 = Some (st2, Ok ti)"
    and k2: "typeCache st2 (t, ts) = Some p"
    and st': "st' = st2\<lparr>heap := (heap st2)[p := ti]\<rparr>"
    by (auto simp: n cachedTypeInfo1_miss split: option.splits result.splits)
  from gen have e: "extends ?st1 st2"
    unfolding genTypeInfo_def by (rule genTypeInfoWith_extends [OF cachedTypeInfo1_growing])
  with ph k2 have p: "p = length (heap st)" by (simp add: extends_def)
  from e have "length (heap st) < length (heap st2)"
    by (simp add: extends_def placeholder_def)
  with p st' have nth: "heap st' ! p = ti" by simp
  from gen obtain dec wr where ti: "ti = \<lparr>decoder = Some dec, writer = Some wr\<rparr>"
    unfolding genTypeInfo_def by (blast dest: genTypeInfoWith_Ok)
  show "p = length (heap st)" by (rule p)
  show "typeCache ?st1 (t, ts) = Some p" using ph p by simp
  show "typeCache st' (t, ts) = Some p" using k2 st' by simp
  show "\<exists>m st2 dec wr.
          n = Suc m \<and>
          genTypeInfo m G R t ts (placeholder st (t, ts)) =
            Some (st2, Ok \<lparr>decoder = Some dec, writer = Some wr\<rparr>) \<and>
          typeCache st2 (t, ts) = Some p \<and>
          st' = st2\<lparr>heap := (heap st2)[p := \<lparr>decoder = Some dec, writer = Some wr\<rparr>]\<rparr> \<and>
          heap st' ! p = \<lparr>decoder = Some dec, writer = Some wr\<rparr>"
    using n gen k2 st' nth ti by blast
qed

text \<open>
  In the example, resolving \<^verbatim>\<open>*List\<close> puts the dummy value at 0; the field
  \<^verbatim>\<open>Next\<close> of \<^verbatim>\<open>List\<close>, of type \<^verbatim>\<open>*List\<close>, gets the pointer 0, and 0 is
  returned. Resolving \<^verbatim>\<open>Node\<close> or \<^verbatim>\<open>List\<close>, the codec of the pointer type holds
  the pointer 0, the entry of the struct itself, and the field has another pointer.
\<close>

theorem cache_entry_identity_witness:
  "(\<exists>st'. cachedTypeInfo1 2 (kindGenerator exampleTypes) exampleTypes emptyCache 14 noTags =
            Some (st', Ok 0) \<and>
     typeCache emptyCache (14, noTags) = None \<and>
     0 = length (heap emptyCache) \<and>
     typeCache st' (14, noTags) = Some 0 \<and>
     typeCache st' (13, noTags) = Some 1 \<and>
     heap st' ! 1 =
       \<lparr>decoder = Some (OfFields [\<lparr>index = 0, info = 0\<rparr>]),
        writer = Some (OfFields [\<lparr>index = 0, info = 0\<rparr>])\<rparr>) \<and>
   (\<exists>st'. cachedTypeInfo1 3 (kindGenerator exampleTypes) exampleTypes emptyCache 3 noTags =
            Some (st', Ok 0) \<and>
     typeCache st' (3, noTags) = Some 0 \<and>
     typeCache st' (4, noTags\<lparr>nilOK := True\<rparr>) = Some 2 \<and>
     heap st' ! 2 = \<lparr>decoder = Some (OfElem 0), writer = Some (OfElem 0)\<rparr>) \<and>
   (\<exists>st' s'. cachedTypeInfo1 2 (kindGenerator exampleTypes) exampleTypes emptyCache 13 noTags =
            Some (st', Ok 0) \<and>
     wellFormed (placeholder emptyCache (13, noTags)) \<and>
     structFields 1 (kindGenerator exampleTypes) exampleTypes 13
       (placeholder emptyCache (13, noTags)) = Some (s', Ok [\<lparr>index = 0, info = 1\<rparr>]) \<and>
     typeCache s' (14, noTags) = Some 1 \<and>
     (1 = length (heap emptyCache)) = ((14 :: rtype, noTags) = (13, noTags)) \<and>
     heap st' ! 1 = \<lparr>decoder = Some (OfElem 0), writer = Some (OfElem 0)\<rparr>)"
proof -
  have "\<exists>st'. cachedTypeInfo1 2 (kindGenerator exampleTypes) exampleTypes emptyCache 14 noTags =
            Some (st', Ok 0) \<and>
     typeCache st' (13, noTags) = Some 1 \<and>
     heap st' ! 1 =
       \<lparr>decoder = Some (OfFields [\<lparr>index = 0, info = 0\<rparr>]),
        writer = Some (OfFields [\<lparr>index = 0, info = 0\<rparr>])\<rparr>"
    by (simp add: example_eval numeral_2_eq_2)
  then obtain st1 where
    run1: "cachedTypeInfo1 2 (kindGenerator exampleTypes) exampleTypes emptyCache 14 noTags =
            Some (st1, Ok 0)"
    and rest1: "typeCache st1 (13, noTags) = Some 1"
     "heap st1 ! 1 =
       \<lparr>decoder = Some (OfFields [\<lparr>index = 0, info = 0\<rparr>]),
        writer = Some (OfFields [\<lparr>index = 0, info = 0\<rparr>])\<rparr>"
    by blast
  have "\<exists>st'. cachedTypeInfo1 3 (kindGenerator exampleTypes) exampleTypes emptyCache 3 noTags =
            Some (st', Ok 0) \<and>
     typeCache st' (4, noTags\<lparr>nilOK := True\<rparr>) = Some 2 \<and>
     heap st' ! 2 = \<lparr>decoder = Some (OfElem 0), writer = Some (OfElem 0)\<rparr>"
    by (simp add: example_eval numeral_3_eq_3)
  then obtain st2 where
    run2: "cachedTypeInfo1 3 (kindGenerator exampleTypes) exampleTypes emptyCache 3 noTags =
            Some (st2, Ok 0)"
    and rest2: "typeCache st2 (4, noTags\<lparr>nilOK := True\<rparr>) = Some 2"
     "heap st2 ! 2 = \<lparr>decoder = Some (OfElem 0), writer = Some (OfElem 0)\<rparr>"
    by blast
  have "\<exists>st'. cachedTypeInfo1 2 (kindGenerator exampleTypes) exampleTypes emptyCache 13 noTags =
            Some (st', Ok 0) \<and>
     heap st' ! 1 = \<lparr>decoder = Some (OfElem 0), writer = Some (OfElem 0)\<rparr>"
    by (simp add: example_eval numeral_2_eq_2)
  then obtain st3 where
    run3: "cachedTypeInfo1 2 (kindGenerator exampleTypes) exampleTypes emptyCache 13 noTags =
            Some (st3, Ok 0)"
    and rest3: "heap st3 ! 1 = \<lparr>decoder = Some (OfElem 0), writer = Some (OfElem 0)\<rparr>"
    by blast
  let ?ph = "placeholder emptyCache (13, noTags)"
  have "\<exists>s'. structFields 1 (kindGenerator exampleTypes) exampleTypes 13 ?ph =
      Some (s', Ok [\<lparr>index = 0, info = 1\<rparr>])"
    by (simp add: structFields_def placeholder_def example_eval)
  then obtain s3 where
    enum: "structFields 1 (kindGenerator exampleTypes) exampleTypes 13 ?ph =
      Some (s3, Ok [\<lparr>index = 0, info = 1\<rparr>])"
    by blast
  have miss: "typeCache emptyCache (14, noTags) = None" "typeCache emptyCache (3, noTags) = None"
    "typeCache emptyCache (13, noTags) = None"
    by (simp_all add: emptyCache_def)
  have wf: "wellFormed ?ph"
    by (rule wellFormed_placeholder) (simp_all add: wellFormed_def emptyCache_def)
  have fld: "Field exampleTypes 13 (index \<lparr>index = 0, info = 1\<rparr>) =
      Ok \<lparr>Name = ''Next'', PkgPath = [], Type = 14, Tag = []\<rparr>"
    by (simp add: Field_def exampleTypes_def)
  have parse: "parseStructTag exampleTypes 13 (index \<lparr>index = 0, info = 1\<rparr>) = Ok noTags"
    by (simp add: example_eval)
  from cache_entry_identity [OF run1] miss(1)
  have a: "0 = length (heap emptyCache) \<and> typeCache st1 (14, noTags) = Some 0" by blast
  from cache_entry_identity [OF run2] miss(2)
  have b: "typeCache st2 (3, noTags) = Some 0" by blast
  note c2 = cache_entry_identity [OF run3, THEN conjunct2, THEN conjunct2, THEN conjunct2,
      THEN conjunct2, rule_format,
      where s = "?ph" and m = 1 and s' = s3 and t' = 13
        and fs = "[\<lparr>index = 0, info = 1\<rparr>]" and d = "\<lparr>index = 0, info = 1\<rparr>"
        and f = "\<lparr>Name = ''Next'', PkgPath = [], Type = 14, Tag = []\<rparr>" and fts = noTags]
  from c2 wf enum fld parse extends_refl [of ?ph]
  have c: "typeCache s3 (14, noTags) = Some 1 \<and>
     (1 = length (heap emptyCache)) = ((14 :: rtype, noTags) = (13, noTags))"
    by simp
  from run1 rest1 miss(1) a run2 rest2 b run3 rest3 wf enum c show ?thesis by blast
qed

text \<open>
  C4. When the key is absent and \<^verbatim>\<open>genTypeInfo\<close> fails for it, \<^verbatim>\<open>cachedTypeInfo\<close>
  returns the error of \<^verbatim>\<open>genTypeInfo\<close>, in the state \<^verbatim>\<open>genTypeInfo\<close> left with the
  key deleted: the key is absent afterwards, and any later resolve of the key that
  returns has called \<^verbatim>\<open>genTypeInfo\<close> for the key again. An error is returned in no
  other way.
\<close>

theorem failed_generation_removes_placeholder:
  assumes "typeCache st (t, ts) = None"
    and "genTypeInfo k G R t ts (placeholder st (t, ts)) = Some (st2, Err e)"
    and "st' = st2\<lparr>typeCache := (typeCache st2)((t, ts) := None)\<rparr>"
  shows "cachedTypeInfo (Suc k) G R st t ts = Some (st', Err e) \<and>
         typeCache st' (t, ts) = None \<and>
         (\<forall>m st'' r. cachedTypeInfo m G R st' t ts = Some (st'', r) \<longrightarrow>
            (\<exists>rest. gens st'' = gens st' @ (t, ts) # rest)) \<and>
         (\<forall>n s s' e'. cachedTypeInfo n G R s t ts = Some (s', Err e') \<longrightarrow>
            typeCache s (t, ts) = None \<and> typeCache s' (t, ts) = None \<and>
            (\<exists>j s2. n = Suc j \<and>
               genTypeInfo j G R t ts (placeholder s (t, ts)) = Some (s2, Err e') \<and>
               s' = s2\<lparr>typeCache := (typeCache s2)((t, ts) := None)\<rparr>))"
proof (intro conjI allI impI)
  show run: "cachedTypeInfo (Suc k) G R st t ts = Some (st', Err e)"
    using assms by (simp add: cachedTypeInfo_eq cachedTypeInfo1_miss)
  show absent: "typeCache st' (t, ts) = None"
    using assms(3) by simp
  show "\<exists>rest. gens st'' = gens st' @ (t, ts) # rest"
    if "cachedTypeInfo m G R st' t ts = Some (st'', r)" for m st'' r
    using that cachedTypeInfo1_miss_gens [OF absent] by (simp add: cachedTypeInfo_eq)
next
  fix n s s' e'
  assume "cachedTypeInfo n G R s t ts = Some (s', Err e')"
  then have err: "cachedTypeInfo1 n G R s t ts = Some (s', Err e')"
    by (simp add: cachedTypeInfo_eq)
  show miss: "typeCache s (t, ts) = None" by (rule cachedTypeInfo1_Err_miss [OF err])
  show "typeCache s' (t, ts) = None" by (rule cachedTypeInfo1_Err_absent [OF err])
  from err miss obtain j where n: "n = Suc j"
    by (cases n) (auto simp: cachedTypeInfo1_0)
  from err miss
  have "\<exists>s2. genTypeInfo j G R t ts (placeholder s (t, ts)) = Some (s2, Err e') \<and>
            s' = s2\<lparr>typeCache := (typeCache s2)((t, ts) := None)\<rparr>"
    by (auto simp: n cachedTypeInfo1_miss split: option.splits result.splits)
  with n show "\<exists>j s2. n = Suc j \<and>
               genTypeInfo j G R t ts (placeholder s (t, ts)) = Some (s2, Err e') \<and>
               s' = s2\<lparr>typeCache := (typeCache s2)((t, ts) := None)\<rparr>"
    by blast
qed

text \<open>In the example the generator fails for \<^verbatim>\<open>chan uint64\<close>, each time it is asked.\<close>

theorem failed_generation_removes_placeholder_witness:
  "\<exists>st2 st' st''.
     typeCache emptyCache (2, noTags) = None \<and>
     genTypeInfo 0 (kindGenerator exampleTypes) exampleTypes 2 noTags
       (placeholder emptyCache (2, noTags)) =
         Some (st2, Err (GenerationError ''type is not RLP-serializable'')) \<and>
     typeCache st2 (2, noTags) = Some 0 \<and>
     cachedTypeInfo 1 (kindGenerator exampleTypes) exampleTypes emptyCache 2 noTags =
       Some (st', Err (GenerationError ''type is not RLP-serializable'')) \<and>
     typeCache st' (2, noTags) = None \<and>
     cachedTypeInfo 1 (kindGenerator exampleTypes) exampleTypes st' 2 noTags =
       Some (st'', Err (GenerationError ''type is not RLP-serializable'')) \<and>
     gens st' = [(2, noTags)] \<and> gens st'' = [(2, noTags), (2, noTags)]"
proof -
  let ?e = "Err (GenerationError ''type is not RLP-serializable'')"
  have miss: "typeCache emptyCache (2, noTags) = None" by (simp add: emptyCache_def)
  have "\<exists>st2. genTypeInfo 0 (kindGenerator exampleTypes) exampleTypes 2 noTags
       (placeholder emptyCache (2, noTags)) = Some (st2, ?e) \<and>
       typeCache st2 (2, noTags) = Some 0 \<and> gens st2 = [(2, noTags)]"
    by (simp add: genTypeInfo_def placeholder_def example_eval)
  then obtain st2 where
    gen: "genTypeInfo 0 (kindGenerator exampleTypes) exampleTypes 2 noTags
       (placeholder emptyCache (2, noTags)) = Some (st2, ?e)"
    and k2: "typeCache st2 (2, noTags) = Some 0" and g2: "gens st2 = [(2, noTags)]"
    by blast
  define st' where "st' = st2\<lparr>typeCache := (typeCache st2)((2, noTags) := None)\<rparr>"
  note c4 = failed_generation_removes_placeholder [OF miss gen st'_def]
  from c4 have run: "cachedTypeInfo 1 (kindGenerator exampleTypes) exampleTypes emptyCache
      2 noTags = Some (st', ?e)"
    and absent: "typeCache st' (2, noTags) = None"
    by simp_all
  have g': "gens st' = [(2, noTags)]" using g2 by (simp add: st'_def)
  have "\<exists>st''. cachedTypeInfo 1 (kindGenerator exampleTypes) exampleTypes st' 2 noTags =
      Some (st'', ?e) \<and> gens st'' = [(2, noTags), (2, noTags)]"
    using absent g' by (simp add: example_eval)
  with miss gen k2 run absent g' show ?thesis by blast
qed

text \<open>
  C5. When a resolve of a key has succeeded, a second resolve of the key in the state
  the first one left returns the same pointer from the lookup and leaves the state as it
  is, the record of generator calls included: no generator runs. It needs no fuel
  (\<open>m\<close> may be 0) and does not depend on the generator or the types (\<open>G'\<close>, \<open>R'\<close>).
\<close>

theorem second_resolve_is_lookup:
  assumes "cachedTypeInfo n G R st t ts = Some (st', Ok p)"
  shows "cachedTypeInfo m G' R' st' t ts = Some (st', Ok p)"
proof -
  from assms have "typeCache st' (t, ts) = Some p"
    by (simp add: cachedTypeInfo_eq cachedTypeInfo1_caching)
  then show ?thesis by (simp add: cachedTypeInfo_def)
qed

text \<open>In the example, resolving \<^verbatim>\<open>Node\<close> runs the generator for \<^verbatim>\<open>Node\<close>, \<^verbatim>\<open>uint64\<close>
  and \<^verbatim>\<open>*Node\<close>; resolving it again runs none.\<close>

theorem second_resolve_is_lookup_witness:
  "\<exists>st'. cachedTypeInfo 3 (kindGenerator exampleTypes) exampleTypes emptyCache 3 noTags =
            Some (st', Ok 0) \<and>
         gens st' = [(3, noTags), (0, noTags), (4, noTags\<lparr>nilOK := True\<rparr>)] \<and>
         cachedTypeInfo 0 (kindGenerator exampleTypes) exampleTypes st' 3 noTags =
            Some (st', Ok 0)"
proof -
  have "\<exists>st'. cachedTypeInfo 3 (kindGenerator exampleTypes) exampleTypes emptyCache 3 noTags =
            Some (st', Ok 0) \<and>
         gens st' = [(3, noTags), (0, noTags), (4, noTags\<lparr>nilOK := True\<rparr>)]"
    by (simp add: example_eval numeral_3_eq_3)
  then obtain st' where
    run: "cachedTypeInfo 3 (kindGenerator exampleTypes) exampleTypes emptyCache 3 noTags =
            Some (st', Ok 0)"
    and g: "gens st' = [(3, noTags), (0, noTags), (4, noTags\<lparr>nilOK := True\<rparr>)]"
    by blast
  from second_resolve_is_lookup [OF run] run g show ?thesis by blast
qed




end
